theory Spec2Isabelle
  imports Main "HOL-Library.Word" "HOL-Library.Finite_Map" "HOL-Library.List_Lexorder"
begin

unbundle bit_operations_syntax

section \<open>Shared data\<close>

text \<open>
  A Go \<open>string\<close> and the contents of a \<open>[]byte\<close> are sequences of bytes. An instant
  (\<open>time.Time\<close>) and a \<open>time.Duration\<close> are counted in nanoseconds; an instant is
  measured from the Unix epoch. Both are standard-library types: they are taken as
  unbounded integers, so \<open>Add\<close> is addition and \<open>After\<close> is \<open>>\<close>.
\<close>

type_synonym bytes = "8 word list"
type_synonym Time = int
type_synonym Duration = int

datatype error =
    ErrResourceDoesNotExist
  | ErrClientUnapproved
  | ErrBothLists
  | ErrClientIDLength bytes
  | PanicStopped
  | PanicSliceBounds
  | PanicIndexRange
  | PanicDivideByZero

text \<open>
  \<open>netip.Addr\<close>: the zero value, an IPv4 address, or an IPv6 address with its zone.
  \<open>Is6\<close> and \<open>MarshalBinary\<close> follow the documentation of package \<open>net/netip\<close>:
  the binary form is empty for the zero value, 4 bytes for IPv4 and 16 bytes followed by
  the zone for IPv6.
\<close>

datatype Addr = AddrZero | IPv4 "32 word" | IPv6 "128 word" bytes

definition be_bytes :: "nat \<Rightarrow> 'a::len word \<Rightarrow> bytes" where
  "be_bytes n w = map (\<lambda>i. ucast (drop_bit (8 * i) w)) (rev [0..<n])"

fun Is6 :: "Addr \<Rightarrow> bool" where
  "Is6 (IPv6 a z) = True"
| "Is6 _ = False"

fun MarshalBinary :: "Addr \<Rightarrow> bytes" where
  "MarshalBinary AddrZero = []"
| "MarshalBinary (IPv4 a) = be_bytes 4 a"
| "MarshalBinary (IPv6 a z) = be_bytes 16 a @ z"

text \<open>
  \<open>binary.BigEndian.Uint32\<close> and \<open>PutUint32\<close> of package \<open>encoding/binary\<close>;
  both index \<open>b[3]\<close> first and so panic on fewer than 4 bytes.
\<close>

definition Uint32 :: "bytes \<Rightarrow> error + 32 word" where
  "Uint32 b =
     (if length b < 4 then Inl PanicIndexRange
      else Inr (ucast (b ! 3) OR push_bit 8 (ucast (b ! 2)) OR
                push_bit 16 (ucast (b ! 1)) OR push_bit 24 (ucast (b ! 0))))"

definition PutUint32 :: "bytes \<Rightarrow> 32 word \<Rightarrow> error + bytes" where
  "PutUint32 b v =
     (if length b < 4 then Inl PanicIndexRange
      else Inr ([ucast (drop_bit 24 v), ucast (drop_bit 16 v), ucast (drop_bit 8 v), ucast v]
                @ drop 4 b))"

text \<open>
  Modelled from the spec: the type \<open>bittorrent.Peer\<close>, declared in a package whose
  source is not among the files, is the triple of a peer ID, an IP address and a port.
\<close>

record Peer =
  ID :: bytes
  Addr :: Addr
  Port :: "16 word"

text \<open>
  The functions of package \<open>bittorrent\<close> that the code calls and whose source is not
  among the files are parameters of the model: the compact serialization of a peer, its
  inverse (whose error result the callers discard), and the client ID of a peer ID.
\<close>

record bittorrent =
  RawString :: "Peer \<Rightarrow> bytes"
  NewPeer :: "bytes \<Rightarrow> Peer"
  NewClientID :: "bytes \<Rightarrow> bytes"

section \<open>Client approval (middleware/clientapproval)\<close>

record Config =
  Whitelist :: "bytes list"
  Blacklist :: "bytes list"

record hook =
  approved :: "bytes fset"
  unapproved :: "bytes fset"

text \<open>The two loops of \<open>NewHook\<close>: each entry must be 6 bytes, else construction fails.\<close>

fun addClientIDs :: "bytes list \<Rightarrow> bytes fset \<Rightarrow> error + bytes fset" where
  "addClientIDs [] s = Inr s"
| "addClientIDs (cidString # rest) s =
     (if length cidString \<noteq> 6 then Inl (ErrClientIDLength cidString)
      else addClientIDs rest (finsert cidString s))"

definition NewHook :: "Config \<Rightarrow> error + hook" where
  "NewHook cfg =
     (if length (Whitelist cfg) > 0 \<and> length (Blacklist cfg) > 0 then Inl ErrBothLists
      else case addClientIDs (Whitelist cfg) {||} of
             Inl e \<Rightarrow> Inl e
           | Inr a \<Rightarrow>
               (case addClientIDs (Blacklist cfg) {||} of
                  Inl e \<Rightarrow> Inl e
                | Inr u \<Rightarrow> Inr \<lparr>approved = a, unapproved = u\<rparr>))"

text \<open>
  \<open>HandleAnnounce\<close> returns the context it was given, with \<open>ErrClientUnapproved\<close> or
  no error. The request is represented by the peer it carries.
\<close>

definition HandleAnnounce :: "bittorrent \<Rightarrow> hook \<Rightarrow> 'ctx \<Rightarrow> Peer \<Rightarrow> error + 'ctx" where
  "HandleAnnounce bt h ctx reqPeer =
     (let clientID = NewClientID bt (ID reqPeer) in
      if fcard (approved h) > 0 \<and> clientID |\<notin>| approved h then Inl ErrClientUnapproved
      else if fcard (unapproved h) > 0 \<and> clientID |\<in>| unapproved h then Inl ErrClientUnapproved
      else Inr ctx)"

section \<open>Connection IDs (frontend/udp/connection_id.go)\<close>

text \<open>
  A byte slice passed by a caller: the \<open>len\<close> bytes it shows and the bytes of its backing
  array between \<open>len\<close> and \<open>cap\<close>. Go allows \<open>s[:n]\<close> up to the capacity and \<open>s[n:]\<close>
  up to the length.
\<close>

record slice =
  shown :: bytes
  spare :: bytes

definition slice_upto :: "slice \<Rightarrow> nat \<Rightarrow> error + bytes" where
  "slice_upto s n =
     (if n \<le> length (shown s) + length (spare s) then Inr (take n (shown s @ spare s))
      else Inl PanicSliceBounds)"

definition slice_from :: "slice \<Rightarrow> nat \<Rightarrow> error + bytes" where
  "slice_from s n = (if n \<le> length (shown s) then Inr (drop n (shown s)) else Inl PanicSliceBounds)"

text \<open>
  The generator: the keyed HMAC (a function from the bytes written to the digest, fixed by
  the key, together with the bytes written since the last reset), the 8-byte buffer
  \<open>connID\<close> and the scratch buffer, whose backing array holds 32 bytes.
  HMAC-SHA256 itself is a parameter: \<open>crypto/hmac\<close> and the SHA-256 package are libraries.
  Its digest is a 256-bit value, which \<open>Sum\<close> appends as 32 bytes. The buffers are made
  by the constructor: \<open>connID\<close> has length and capacity 8, so \<open>g.connID[:8]\<close> keeps
  its 8 bytes and \<open>copy(g.connID[4:8], g.scratch[:4])\<close> overwrites the last four.
\<close>

record ConnectionIDGenerator =
  mac :: "bytes \<Rightarrow> 256 word"
  written :: bytes
  connID :: bytes
  scratch :: bytes

definition ttl :: Duration where
  "ttl = 2 * (60 * 1000000000)"

definition NewConnectionIDGenerator ::
  "(bytes \<Rightarrow> bytes \<Rightarrow> 256 word) \<Rightarrow> bytes \<Rightarrow> ConnectionIDGenerator" where
  "NewConnectionIDGenerator hmac_sha256 key =
     \<lparr>mac = hmac_sha256 key, written = [], connID = replicate 8 0, scratch = replicate 32 0\<rparr>"

definition reset :: "ConnectionIDGenerator \<Rightarrow> ConnectionIDGenerator" where
  "reset g = g\<lparr>written := [], connID := take 8 (connID g), scratch := []\<rparr>"

definition Write :: "ConnectionIDGenerator \<Rightarrow> bytes \<Rightarrow> ConnectionIDGenerator" where
  "Write g p = g\<lparr>written := written g @ p\<rparr>"

definition Sum :: "ConnectionIDGenerator \<Rightarrow> bytes \<Rightarrow> bytes" where
  "Sum g b = b @ be_bytes 32 (mac g (written g))"

definition Unix :: "Time \<Rightarrow> int" where
  "Unix t = t div 1000000000"

definition time_Unix :: "int \<Rightarrow> int \<Rightarrow> Time" where
  "time_Unix sec nsec = sec * 1000000000 + nsec"

text \<open>
  \<open>hmac.Equal(x, y)\<close> is \<open>subtle.ConstantTimeCompare(x, y) == 1\<close>, of the standard
  library. \<open>ConstantTimeCompare\<close> returns 0 at once when the lengths differ. Otherwise
  its loop, \<open>for i := 0; i < len(x); i++ { v |= x[i] ^ y[i] }\<close>, has no exit, and the
  result is 1 exactly when the accumulator \<open>v\<close> is 0. The time the comparison takes is
  counted in iterations of that loop, each one XOR and one OR: the model returns the
  count with the result.
\<close>

definition ConstantTimeCompare :: "bytes \<Rightarrow> bytes \<Rightarrow> int \<times> nat" where
  "ConstantTimeCompare x y =
     (if length x \<noteq> length y then (0, 0)
      else let (v, iterations) =
                 fold (\<lambda>(a, b) (v, iterations). (v OR (a XOR b), iterations + 1))
                   (zip x y) (0 :: 8 word, 0)
           in (if v = 0 then 1 else 0, iterations))"

definition hmac_Equal :: "bytes \<Rightarrow> bytes \<Rightarrow> bool \<times> nat" where
  "hmac_Equal x y = (let (r, iterations) = ConstantTimeCompare x y in (r = 1, iterations))"

definition Generate ::
  "ConnectionIDGenerator \<Rightarrow> Addr \<Rightarrow> Time \<Rightarrow> error + (bytes \<times> ConnectionIDGenerator)" where
  "Generate g0 ip now =
     (let g = reset g0 in
      case PutUint32 (connID g) (word_of_int (Unix now)) of
        Inl e \<Rightarrow> Inl e
      | Inr c \<Rightarrow>
          let g = g\<lparr>connID := c\<rparr>;
              g = Write g (take 4 (connID g));
              ipBytes = MarshalBinary ip;
              g = Write g ipBytes;
              g = g\<lparr>scratch := Sum g (scratch g)\<rparr>;
              g = g\<lparr>connID := take 4 (connID g) @ take 4 (scratch g) @ drop 8 (connID g)\<rparr>
          in Inr (connID g, g))"

text \<open>
  \<open>Validate\<close>. \<open>Validate_timed\<close> is the method with the time of its comparison: the
  boolean it returns and the number of iterations \<open>hmac.Equal\<close> made, which is 0 when
  the time window rejects, before any comparison. \<open>Validate\<close> is the boolean alone.
\<close>

definition Validate_timed ::
  "ConnectionIDGenerator \<Rightarrow> slice \<Rightarrow> Addr \<Rightarrow> Time \<Rightarrow> Duration \<Rightarrow>
     error + ((bool \<times> nat) \<times> ConnectionIDGenerator)" where
  "Validate_timed g0 connectionID ip now maxClockSkew =
     (case slice_upto connectionID 4 of
        Inl e \<Rightarrow> Inl e
      | Inr head \<Rightarrow>
          (case Uint32 head of
             Inl e \<Rightarrow> Inl e
           | Inr u \<Rightarrow>
               let ts = time_Unix (uint u) 0 in
               if now > ts + ttl \<or> ts > now + maxClockSkew then Inr ((False, 0), g0)
               else
                 let g = reset g0;
                     g = Write g head;
                     ipBytes = MarshalBinary ip;
                     g = Write g ipBytes;
                     g = g\<lparr>scratch := Sum g (scratch g)\<rparr>
                 in (case slice_from connectionID 4 of
                       Inl e \<Rightarrow> Inl e
                     | Inr tag \<Rightarrow> Inr (hmac_Equal (take 4 (scratch g)) tag, g))))"

definition Validate ::
  "ConnectionIDGenerator \<Rightarrow> slice \<Rightarrow> Addr \<Rightarrow> Time \<Rightarrow> Duration \<Rightarrow>
     error + (bool \<times> ConnectionIDGenerator)" where
  "Validate g0 connectionID ip now maxClockSkew =
     (case Validate_timed g0 connectionID ip now maxClockSkew of
        Inl e \<Rightarrow> Inl e
      | Inr ((ok, iterations), g) \<Rightarrow> Inr (ok, g))"

text \<open>
  \<open>Validate(Generate(ip, now), ip, now, 0)\<close> on one generator: \<open>Generate\<close> returns its
  buffer \<open>connID\<close>, a slice of length and capacity 8.
\<close>

definition round_trip :: "ConnectionIDGenerator \<Rightarrow> Addr \<Rightarrow> Time \<Rightarrow> error + bool" where
  "round_trip g ip now =
     (case Generate g ip now of
        Inl e \<Rightarrow> Inl e
      | Inr (c, g1) \<Rightarrow>
          (case Validate g1 \<lparr>shown = c, spare = []\<rparr> ip now 0 of
             Inl e \<Rightarrow> Inl e
           | Inr (ok, g2) \<Rightarrow> Inr ok))"

section \<open>The peer store (storage/memory/storage.go)\<close>

text \<open>
  Timestamps and cutoffs are \<open>int64\<close>, compared as signed values; the counters of a
  shard are \<open>uint64\<close> and wrap around. A Go map is a finite map. Only the fields of
  \<open>peerStore\<close> that the operations read are kept: the shards and the closed signal.
\<close>

record swarm =
  seeders :: "(bytes, 64 word) fmap"
  leechers :: "(bytes, 64 word) fmap"

record peerShard =
  swarms :: "(bytes, swarm) fmap"
  numSeeders :: "64 word"
  numLeechers :: "64 word"

record peerStore =
  shards :: "peerShard list"
  closed :: bool

record StoreConfig =
  ShardCount :: int

definition defaultShardCount :: int where
  "defaultShardCount = 1024"

definition MaxInt :: int where
  "MaxInt = 2 ^ 63 - 1"

definition Config_Validate :: "StoreConfig \<Rightarrow> StoreConfig" where
  "Config_Validate cfg =
     (if ShardCount cfg \<le> 0 \<or> ShardCount cfg > MaxInt div 2
      then cfg\<lparr>ShardCount := defaultShardCount\<rparr> else cfg)"

definition NewPeerStorage :: "StoreConfig \<Rightarrow> peerStore" where
  "NewPeerStorage provided =
     (let cfg = Config_Validate provided in
      \<lparr>shards = replicate (nat (ShardCount cfg * 2))
                  \<lparr>swarms = fmempty, numSeeders = 0, numLeechers = 0\<rparr>,
       closed = False\<rparr>)"

text \<open>
  \<open>shardIndex\<close>: slicing the info-hash panics below 4 bytes, and the remainder panics
  when the 32-bit half of the shard count is zero.
\<close>

definition shardIndex :: "peerStore \<Rightarrow> bytes \<Rightarrow> Addr \<Rightarrow> error + 32 word" where
  "shardIndex ps infoHash addr =
     (if length infoHash < 4 then Inl PanicSliceBounds
      else case Uint32 (take 4 infoHash) of
             Inl e \<Rightarrow> Inl e
           | Inr u \<Rightarrow>
               let half = (word_of_nat (length (shards ps)) :: 32 word) div 2 in
               if half = 0 then Inl PanicDivideByZero
               else let idx = u mod half in
                    Inr (if Is6 addr then idx + word_of_nat (length (shards ps) div 2) else idx))"

text \<open>
  The entry of every operation: the closed signal is sampled, the shard is selected
  (indexing the shard slice panics out of range), and the body runs under the lock of
  that shard. A body that returns an error leaves the store as it was.
\<close>

definition selectShard :: "peerStore \<Rightarrow> bytes \<Rightarrow> Addr \<Rightarrow> error + nat" where
  "selectShard ps ih addr =
     (if closed ps then Inl PanicStopped
      else case shardIndex ps ih addr of
             Inl e \<Rightarrow> Inl e
           | Inr idx \<Rightarrow>
               if length (shards ps) \<le> unat idx then Inl PanicIndexRange else Inr (unat idx))"

definition onShard ::
  "peerStore \<Rightarrow> bytes \<Rightarrow> Addr \<Rightarrow> (peerShard \<Rightarrow> error + peerShard) \<Rightarrow> error + peerStore" where
  "onShard ps ih addr body =
     (case selectShard ps ih addr of
        Inl e \<Rightarrow> Inl e
      | Inr i \<Rightarrow>
          (case body (shards ps ! i) of
             Inl e \<Rightarrow> Inl e
           | Inr shard \<Rightarrow> Inr (ps\<lparr>shards := (shards ps)[i := shard]\<rparr>)))"

text \<open>
  Reading \<open>shard.swarms[ih]\<close> gives the zero swarm when the key is absent; its maps are
  nil, which read as empty.
\<close>

definition swarm_at :: "peerShard \<Rightarrow> bytes \<Rightarrow> swarm" where
  "swarm_at shard ih =
     (case fmlookup (swarms shard) ih of
        None \<Rightarrow> \<lparr>seeders = fmempty, leechers = fmempty\<rparr>
      | Some sw \<Rightarrow> sw)"

definition ensureSwarm :: "bytes \<Rightarrow> peerShard \<Rightarrow> peerShard" where
  "ensureSwarm ih shard =
     (if ih |\<notin>| fmdom (swarms shard)
      then shard\<lparr>swarms := fmupd ih \<lparr>seeders = fmempty, leechers = fmempty\<rparr> (swarms shard)\<rparr>
      else shard)"

text \<open>
  The maps of a swarm are shared with the entry stored in the shard, so writing to
  \<open>shard.swarms[ih].seeders\<close> changes that entry.
\<close>

definition setSeeders :: "bytes \<Rightarrow> (bytes, 64 word) fmap \<Rightarrow> peerShard \<Rightarrow> peerShard" where
  "setSeeders ih m shard =
     shard\<lparr>swarms := fmupd ih ((swarm_at shard ih)\<lparr>seeders := m\<rparr>) (swarms shard)\<rparr>"

definition setLeechers :: "bytes \<Rightarrow> (bytes, 64 word) fmap \<Rightarrow> peerShard \<Rightarrow> peerShard" where
  "setLeechers ih m shard =
     shard\<lparr>swarms := fmupd ih ((swarm_at shard ih)\<lparr>leechers := m\<rparr>) (swarms shard)\<rparr>"

definition len :: "('k, 'v) fmap \<Rightarrow> int" where
  "len m = int (fcard (fmdom m))"

definition dropIfEmpty :: "bytes \<Rightarrow> peerShard \<Rightarrow> peerShard" where
  "dropIfEmpty ih shard =
     (if len (seeders (swarm_at shard ih)) OR len (leechers (swarm_at shard ih)) = 0
      then shard\<lparr>swarms := fmdrop ih (swarms shard)\<rparr> else shard)"

definition PutSeeder_locked :: "bytes \<Rightarrow> bytes \<Rightarrow> 64 word \<Rightarrow> peerShard \<Rightarrow> peerShard" where
  "PutSeeder_locked ih pk clock shard0 =
     (let shard = ensureSwarm ih shard0;
          shard = (if pk |\<notin>| fmdom (seeders (swarm_at shard ih))
                   then shard\<lparr>numSeeders := numSeeders shard + 1\<rparr> else shard)
      in setSeeders ih (fmupd pk clock (seeders (swarm_at shard ih))) shard)"

definition PutSeeder :: "bittorrent \<Rightarrow> 64 word \<Rightarrow> peerStore \<Rightarrow> bytes \<Rightarrow> Peer \<Rightarrow> error + peerStore" where
  "PutSeeder bt clock ps ih p =
     onShard ps ih (Addr p) (\<lambda>shard. Inr (PutSeeder_locked ih (RawString bt p) clock shard))"

definition DeleteSeeder_locked :: "bytes \<Rightarrow> bytes \<Rightarrow> peerShard \<Rightarrow> error + peerShard" where
  "DeleteSeeder_locked ih pk shard0 =
     (if ih |\<notin>| fmdom (swarms shard0) then Inl ErrResourceDoesNotExist
      else if pk |\<notin>| fmdom (seeders (swarm_at shard0 ih)) then Inl ErrResourceDoesNotExist
      else let shard = shard0\<lparr>numSeeders := numSeeders shard0 - 1\<rparr>;
               shard = setSeeders ih (fmdrop pk (seeders (swarm_at shard ih))) shard
           in Inr (dropIfEmpty ih shard))"

definition DeleteSeeder :: "bittorrent \<Rightarrow> peerStore \<Rightarrow> bytes \<Rightarrow> Peer \<Rightarrow> error + peerStore" where
  "DeleteSeeder bt ps ih p = onShard ps ih (Addr p) (DeleteSeeder_locked ih (RawString bt p))"

definition PutLeecher_locked :: "bytes \<Rightarrow> bytes \<Rightarrow> 64 word \<Rightarrow> peerShard \<Rightarrow> peerShard" where
  "PutLeecher_locked ih pk clock shard0 =
     (let shard = ensureSwarm ih shard0;
          shard = (if pk |\<notin>| fmdom (leechers (swarm_at shard ih))
                   then shard\<lparr>numLeechers := numLeechers shard + 1\<rparr> else shard)
      in setLeechers ih (fmupd pk clock (leechers (swarm_at shard ih))) shard)"

definition PutLeecher :: "bittorrent \<Rightarrow> 64 word \<Rightarrow> peerStore \<Rightarrow> bytes \<Rightarrow> Peer \<Rightarrow> error + peerStore" where
  "PutLeecher bt clock ps ih p =
     onShard ps ih (Addr p) (\<lambda>shard. Inr (PutLeecher_locked ih (RawString bt p) clock shard))"

definition DeleteLeecher_locked :: "bytes \<Rightarrow> bytes \<Rightarrow> peerShard \<Rightarrow> error + peerShard" where
  "DeleteLeecher_locked ih pk shard0 =
     (if ih |\<notin>| fmdom (swarms shard0) then Inl ErrResourceDoesNotExist
      else if pk |\<notin>| fmdom (leechers (swarm_at shard0 ih)) then Inl ErrResourceDoesNotExist
      else let shard = shard0\<lparr>numLeechers := numLeechers shard0 - 1\<rparr>;
               shard = setLeechers ih (fmdrop pk (leechers (swarm_at shard ih))) shard
           in Inr (dropIfEmpty ih shard))"

definition DeleteLeecher :: "bittorrent \<Rightarrow> peerStore \<Rightarrow> bytes \<Rightarrow> Peer \<Rightarrow> error + peerStore" where
  "DeleteLeecher bt ps ih p = onShard ps ih (Addr p) (DeleteLeecher_locked ih (RawString bt p))"

definition GraduateLeecher_locked :: "bytes \<Rightarrow> bytes \<Rightarrow> 64 word \<Rightarrow> peerShard \<Rightarrow> peerShard" where
  "GraduateLeecher_locked ih pk clock shard0 =
     (let shard = ensureSwarm ih shard0;
          shard = (if pk |\<in>| fmdom (leechers (swarm_at shard ih))
                   then setLeechers ih (fmdrop pk (leechers (swarm_at shard ih)))
                          (shard\<lparr>numLeechers := numLeechers shard - 1\<rparr>)
                   else shard);
          shard = (if pk |\<notin>| fmdom (seeders (swarm_at shard ih))
                   then shard\<lparr>numSeeders := numSeeders shard + 1\<rparr> else shard)
      in setSeeders ih (fmupd pk clock (seeders (swarm_at shard ih))) shard)"

definition GraduateLeecher ::
  "bittorrent \<Rightarrow> 64 word \<Rightarrow> peerStore \<Rightarrow> bytes \<Rightarrow> Peer \<Rightarrow> error + peerStore" where
  "GraduateLeecher bt clock ps ih p =
     onShard ps ih (Addr p) (\<lambda>shard. Inr (GraduateLeecher_locked ih (RawString bt p) clock shard))"

text \<open>
  The order in which \<open>range\<close> visits the keys of a map is chosen by the runtime. It is a
  parameter of every function that iterates: a function that lists a set of keys, each key
  once. Each sweep in a sequence of operations carries its own.
\<close>

type_synonym mapiter = "bytes fset \<Rightarrow> bytes list"

definition enumerates :: "mapiter \<Rightarrow> bool" where
  "enumerates it = (\<forall>S. distinct (it S) \<and> fset_of_list (it S) = S)"

text \<open>
  The loops of \<open>AnnouncePeers\<close>. \<open>numWant\<close> is a Go \<open>int\<close>, 64 bits wide and signed:
  each loop stops when it is zero, \<open>numWant--\<close> wraps around from the least value to the
  greatest, and \<open>numWant > 0\<close> compares signed values.
\<close>

fun appendPeers ::
  "bittorrent \<Rightarrow> bytes list \<Rightarrow> 64 word \<Rightarrow> Peer list \<Rightarrow> Peer list \<times> 64 word" where
  "appendPeers bt [] numWant peers = (peers, numWant)"
| "appendPeers bt (pk # rest) numWant peers =
     (if numWant = 0 then (peers, numWant)
      else appendPeers bt rest (numWant - 1) (peers @ [NewPeer bt pk]))"

fun appendOthers ::
  "bittorrent \<Rightarrow> bytes \<Rightarrow> bytes list \<Rightarrow> 64 word \<Rightarrow> Peer list \<Rightarrow> Peer list \<times> 64 word" where
  "appendOthers bt announcerPK [] numWant peers = (peers, numWant)"
| "appendOthers bt announcerPK (pk # rest) numWant peers =
     (if pk = announcerPK then appendOthers bt announcerPK rest numWant peers
      else if numWant = 0 then (peers, numWant)
      else appendOthers bt announcerPK rest (numWant - 1) (peers @ [NewPeer bt pk]))"

definition AnnouncePeers ::
  "bittorrent \<Rightarrow> mapiter \<Rightarrow> peerStore \<Rightarrow> bytes \<Rightarrow> bool \<Rightarrow> 64 word \<Rightarrow> Peer \<Rightarrow> error + Peer list" where
  "AnnouncePeers bt it ps ih seeder numWant0 peer =
     (case selectShard ps ih (Addr peer) of
        Inl e \<Rightarrow> Inl e
      | Inr i \<Rightarrow>
          let shard = shards ps ! i in
          if ih |\<notin>| fmdom (swarms shard) then Inl ErrResourceDoesNotExist
          else if seeder then
            Inr (fst (appendPeers bt (it (fmdom (leechers (swarm_at shard ih)))) numWant0 []))
          else
            let (peers, numWant) =
                  appendPeers bt (it (fmdom (seeders (swarm_at shard ih)))) numWant0 []
            in if 0 <s numWant
               then Inr (fst (appendOthers bt (RawString bt peer)
                                (it (fmdom (leechers (swarm_at shard ih)))) numWant peers))
               else Inr peers)"

text \<open>
  The sweep. \<open>expire\<close> is one of the two inner loops of \<open>gc\<close>: it visits the keys of a
  map, and deletes each entry whose time is at or before the cutoff, decrementing the
  counter of the shard. \<open>gc_locked\<close> is the body run under the lock for one info-hash of
  the snapshot.
\<close>

fun expire ::
  "64 word \<Rightarrow> bytes list \<Rightarrow> (bytes, 64 word) fmap \<times> 64 word \<Rightarrow> (bytes, 64 word) fmap \<times> 64 word" where
  "expire cutoffUnix [] (m, n) = (m, n)"
| "expire cutoffUnix (pk # rest) (m, n) =
     (case fmlookup m pk of
        None \<Rightarrow> expire cutoffUnix rest (m, n)
      | Some mtime \<Rightarrow>
          if word_sle mtime cutoffUnix then expire cutoffUnix rest (fmdrop pk m, n - 1)
          else expire cutoffUnix rest (m, n))"

definition gc_locked :: "mapiter \<Rightarrow> 64 word \<Rightarrow> bytes \<Rightarrow> peerShard \<Rightarrow> peerShard" where
  "gc_locked it cutoffUnix ih shard0 =
     (if ih |\<notin>| fmdom (swarms shard0) then shard0
      else
        let (l, nl) = expire cutoffUnix (it (fmdom (leechers (swarm_at shard0 ih))))
                        (leechers (swarm_at shard0 ih), numLeechers shard0);
            shard = setLeechers ih l (shard0\<lparr>numLeechers := nl\<rparr>);
            (s, ns) = expire cutoffUnix (it (fmdom (seeders (swarm_at shard ih))))
                        (seeders (swarm_at shard ih), numSeeders shard);
            shard = setSeeders ih s (shard\<lparr>numSeeders := ns\<rparr>)
        in dropIfEmpty ih shard)"

definition gc_shard :: "mapiter \<Rightarrow> 64 word \<Rightarrow> peerShard \<Rightarrow> peerShard" where
  "gc_shard it cutoffUnix shard =
     (let infohashes = it (fmdom (swarms shard))
      in fold (gc_locked it cutoffUnix) infohashes shard)"

definition gc :: "mapiter \<Rightarrow> peerStore \<Rightarrow> Time \<Rightarrow> peerStore" where
  "gc it ps cutoff =
     (if closed ps then ps
      else let cutoffUnix = (word_of_int cutoff :: 64 word)
           in ps\<lparr>shards := map (gc_shard it cutoffUnix) (shards ps)\<rparr>)"

subsection \<open>Sequences of operations\<close>

datatype op =
    OpPutSeeder bytes Peer "64 word"
  | OpDeleteSeeder bytes Peer
  | OpPutLeecher bytes Peer "64 word"
  | OpDeleteLeecher bytes Peer
  | OpGraduateLeecher bytes Peer "64 word"
  | OpGC mapiter Time

fun apply_op :: "bittorrent \<Rightarrow> peerStore \<Rightarrow> op \<Rightarrow> error + peerStore" where
  "apply_op bt ps (OpPutSeeder ih p clock) = PutSeeder bt clock ps ih p"
| "apply_op bt ps (OpDeleteSeeder ih p) = DeleteSeeder bt ps ih p"
| "apply_op bt ps (OpPutLeecher ih p clock) = PutLeecher bt clock ps ih p"
| "apply_op bt ps (OpDeleteLeecher ih p) = DeleteLeecher bt ps ih p"
| "apply_op bt ps (OpGraduateLeecher ih p clock) = GraduateLeecher bt clock ps ih p"
| "apply_op bt ps (OpGC it cutoff) = Inr (gc it ps cutoff)"

text \<open>An operation that returns an error or panics has not changed the store.\<close>

definition step :: "bittorrent \<Rightarrow> peerStore \<Rightarrow> op \<Rightarrow> peerStore" where
  "step bt ps x = (case apply_op bt ps x of Inl e \<Rightarrow> ps | Inr ps' \<Rightarrow> ps')"

fun run :: "bittorrent \<Rightarrow> peerStore \<Rightarrow> op list \<Rightarrow> peerStore" where
  "run bt ps [] = ps"
| "run bt ps (x # xs) = run bt (step bt ps x) xs"

subsection \<open>The properties of a store\<close>

definition swarm_disjoint :: "swarm \<Rightarrow> bool" where
  "swarm_disjoint sw = (fmdom (seeders sw) |\<inter>| fmdom (leechers sw) = {||})"

definition shard_disjoint :: "peerShard \<Rightarrow> bool" where
  "shard_disjoint shard = fmpred (\<lambda>ih sw. swarm_disjoint sw) (swarms shard)"

definition store_disjoint :: "peerStore \<Rightarrow> bool" where
  "store_disjoint ps = list_all shard_disjoint (shards ps)"

definition swarm_nonempty :: "swarm \<Rightarrow> bool" where
  "swarm_nonempty sw = (len (seeders sw) + len (leechers sw) > 0)"

definition shard_nonempty :: "peerShard \<Rightarrow> bool" where
  "shard_nonempty shard = fmpred (\<lambda>ih sw. swarm_nonempty sw) (swarms shard)"

definition store_nonempty :: "peerStore \<Rightarrow> bool" where
  "store_nonempty ps = list_all shard_nonempty (shards ps)"

text \<open>The sum of a quantity of each swarm over the swarms of a shard.\<close>

definition sumSwarms :: "(swarm \<Rightarrow> int) \<Rightarrow> (bytes, swarm) fmap \<Rightarrow> int" where
  "sumSwarms f m = (\<Sum>ih\<in>fset (fmdom m). case fmlookup m ih of None \<Rightarrow> 0 | Some sw \<Rightarrow> f sw)"

definition totalSeeders :: "peerShard \<Rightarrow> int" where
  "totalSeeders shard = sumSwarms (\<lambda>sw. len (seeders sw)) (swarms shard)"

definition totalLeechers :: "peerShard \<Rightarrow> int" where
  "totalLeechers shard = sumSwarms (\<lambda>sw. len (leechers sw)) (swarms shard)"

definition counters_ok :: "peerShard \<Rightarrow> bool" where
  "counters_ok shard =
     (numSeeders shard = word_of_int (totalSeeders shard) \<and>
      numLeechers shard = word_of_int (totalLeechers shard))"

definition store_counters_ok :: "peerStore \<Rightarrow> bool" where
  "store_counters_ok ps = list_all counters_ok (shards ps)"

text \<open>The state a sweep leaves: every time in a map is after the cutoff.\<close>

definition all_after :: "64 word \<Rightarrow> (bytes, 64 word) fmap \<Rightarrow> bool" where
  "all_after c m = fmpred (\<lambda>k t. \<not> word_sle t c) m"

definition swarm_fresh :: "64 word \<Rightarrow> swarm \<Rightarrow> bool" where
  "swarm_fresh c sw = (swarm_nonempty sw \<and> all_after c (seeders sw) \<and> all_after c (leechers sw))"

definition shard_fresh :: "64 word \<Rightarrow> peerShard \<Rightarrow> bool" where
  "shard_fresh c shard = fmpred (\<lambda>ih. swarm_fresh c) (swarms shard)"

text \<open>
  A put keeps a peer on one side when it is not applied to a peer that is on the other
  side of the swarm at that moment.
\<close>

definition onOtherSide :: "bittorrent \<Rightarrow> peerStore \<Rightarrow> op \<Rightarrow> bool" where
  "onOtherSide bt ps x =
     (case x of
        OpPutSeeder ih p clock \<Rightarrow>
          (case selectShard ps ih (Addr p) of
             Inl e \<Rightarrow> False
           | Inr i \<Rightarrow> RawString bt p |\<in>| fmdom (leechers (swarm_at (shards ps ! i) ih)))
      | OpPutLeecher ih p clock \<Rightarrow>
          (case selectShard ps ih (Addr p) of
             Inl e \<Rightarrow> False
           | Inr i \<Rightarrow> RawString bt p |\<in>| fmdom (seeders (swarm_at (shards ps ! i) ih)))
      | _ \<Rightarrow> False)"

fun one_sided :: "bittorrent \<Rightarrow> peerStore \<Rightarrow> op list \<Rightarrow> bool" where
  "one_sided bt ps [] = True"
| "one_sided bt ps (x # xs) = (\<not> onOtherSide bt ps x \<and> one_sided bt (step bt ps x) xs)"

subsection \<open>Instances of the parameters, for running the model\<close>

text \<open>
  A serialization of peers in the shape the package documents (peer ID, port, address), a
  reader for it, a client ID taken from the front of the peer ID, and a keyed digest.
  They stand for the library functions when the model is evaluated on concrete inputs.
\<close>

definition demo_RawString :: "Peer \<Rightarrow> bytes" where
  "demo_RawString p = ID p @ be_bytes 2 (Port p) @ MarshalBinary (Addr p)"

definition demo_NewPeer :: "bytes \<Rightarrow> Peer" where
  "demo_NewPeer pk =
     \<lparr>ID = take 20 pk,
      Addr = (if length pk = 26 then IPv4 (word_rcat (drop 22 pk)) else IPv6 (word_rcat (drop 22 pk)) []),
      Port = word_rcat (take 2 (drop 20 pk))\<rparr>"

definition demo_bt :: bittorrent where
  "demo_bt = \<lparr>RawString = demo_RawString, NewPeer = demo_NewPeer, NewClientID = take 6\<rparr>"

definition demo_hmac :: "bytes \<Rightarrow> bytes \<Rightarrow> 256 word" where
  "demo_hmac key msg =
     fold (\<lambda>b h. h * 0x9E3779B97F4A7C15 + ucast b) (key @ msg @ replicate 8 0) 7"

definition demo_ih :: bytes where
  "demo_ih = replicate 20 1"

definition demo_peer :: "8 word \<Rightarrow> Peer" where
  "demo_peer n = \<lparr>ID = replicate 20 n, Addr = IPv4 (0xC0000200 + ucast n), Port = 6881\<rparr>"

section \<open>Bytes, words and the comparison of tags\<close>

lemma be32_roundtrip:
  "(ucast (ucast v :: 8 word) OR push_bit 8 (ucast (ucast (drop_bit 8 v) :: 8 word)) OR
    push_bit 16 (ucast (ucast (drop_bit 16 v) :: 8 word)) OR
    push_bit 24 (ucast (ucast (drop_bit 24 v) :: 8 word))) = (v :: 32 word)"
proof (rule bit_word_eqI)
  fix n :: nat
  assume n: "n < LENGTH(32)"
  consider "n < 8" | "8 \<le> n" "n < 16" | "16 \<le> n" "n < 24" | "24 \<le> n" "n < 32"
    using n by fastforce
  then show "bit (ucast (ucast v :: 8 word) OR push_bit 8 (ucast (ucast (drop_bit 8 v) :: 8 word)) OR
    push_bit 16 (ucast (ucast (drop_bit 16 v) :: 8 word)) OR
    push_bit 24 (ucast (ucast (drop_bit 24 v) :: 8 word)) :: 32 word) n = bit v n"
    by cases (auto simp: bit_simps)
qed

lemma be_bytes_4: "be_bytes 4 (v::32 word) = [ucast (drop_bit 24 v), ucast (drop_bit 16 v), ucast (drop_bit 8 v), ucast v]"
  by (simp add: be_bytes_def upt_rec numeral_eq_Suc)

lemma length_be_bytes: "length (be_bytes n w) = n"
  by (simp add: be_bytes_def)

lemma xor_zero_iff: "(a XOR b = 0) = (a = (b :: 8 word))"
  by (metis xor.right_neutral xor_self_eq xor.left_commute xor.commute)

lemma fold_or_zero: "(fold (\<lambda>(a, b) v. v OR (a XOR b)) xs (acc :: 8 word) = 0) = (acc = 0 \<and> (\<forall>p\<in>set xs. fst p = snd p))"
proof (induction xs arbitrary: acc)
  case Nil
  then show ?case by simp
next
  case (Cons p xs)
  obtain a b where p: "p = (a, b)" by (cases p)
  show ?case
    unfolding p by (simp add: Cons.IH or_eq_0_iff xor_zero_iff)
qed

lemma fold_counted:
  "fold (\<lambda>(a, b) (v, iterations). (v OR (a XOR b), iterations + 1)) xs (acc :: 8 word, k :: nat) =
     (fold (\<lambda>(a, b) v. v OR (a XOR b)) xs acc, k + length xs)"
  by (induction xs arbitrary: acc k) (simp_all add: split_beta)

text \<open>
  The comparison decides equality, and the number of its iterations is the common length
  of the two sequences, whatever their bytes.
\<close>

lemma hmac_Equal_value:
  "hmac_Equal x y = (x = y, if length x = length y then length x else 0)"
proof (cases "length x = length y")
  case True
  have "(fold (\<lambda>(a, b) v. v OR (a XOR b)) (zip x y) (0 :: 8 word) = 0) = (x = y)"
    unfolding fold_or_zero using True by (auto simp: list_eq_iff_zip_eq)
  then show ?thesis
    unfolding hmac_Equal_def ConstantTimeCompare_def fold_counted using True by simp
next
  case False
  then show ?thesis
    by (auto simp: hmac_Equal_def ConstantTimeCompare_def)
qed

lemma be32_or_add:
  fixes t0 t1 t2 t3 :: "8 word"
  shows "(ucast t3 OR push_bit 8 (ucast t2) OR push_bit 16 (ucast t1) OR push_bit 24 (ucast t0) :: 32 word)
       = ucast t3 + (push_bit 8 (ucast t2) + (push_bit 16 (ucast t1) + push_bit 24 (ucast t0)))"
proof -
  have a: "push_bit 16 (ucast t1) + push_bit 24 (ucast t0) = (push_bit 16 (ucast t1) OR push_bit 24 (ucast t0) :: 32 word)"
    by (rule disjunctive_add) (auto simp: bit_simps dest: bit_imp_le_length)
  have b: "push_bit 8 (ucast t2) + (push_bit 16 (ucast t1) OR push_bit 24 (ucast t0))
         = (push_bit 8 (ucast t2) OR (push_bit 16 (ucast t1) OR push_bit 24 (ucast t0)) :: 32 word)"
    by (rule disjunctive_add) (auto simp: bit_simps dest: bit_imp_le_length)
  have c: "ucast t3 + (push_bit 8 (ucast t2) OR (push_bit 16 (ucast t1) OR push_bit 24 (ucast t0)))
         = (ucast t3 OR (push_bit 8 (ucast t2) OR (push_bit 16 (ucast t1) OR push_bit 24 (ucast t0))) :: 32 word)"
    by (rule disjunctive_add) (auto simp: bit_simps dest: bit_imp_le_length)
  show ?thesis
    unfolding a b c by (simp add: ac_simps)
qed

lemma uint_uint32_Unix:
  assumes "0 \<le> x" "x < 2 ^ 32"
  shows "uint (word_of_int x :: 32 word) = x"
  using assms by (simp add: uint_word_of_int take_bit_int_eq_self)

text \<open>The value of four bytes read as a big-endian 32-bit number.\<close>

lemma uint_be32:
  fixes t0 t1 t2 t3 :: "8 word"
  shows "uint (ucast t3 OR push_bit 8 (ucast t2) OR push_bit 16 (ucast t1) OR push_bit 24 (ucast t0) :: 32 word)
       = uint t0 * 16777216 + uint t1 * 65536 + uint t2 * 256 + uint t3"
proof -
  let ?S = "uint t0 * 16777216 + uint t1 * 65536 + uint t2 * 256 + uint t3"
  have w: "(ucast t3 + (push_bit 8 (ucast t2) + (push_bit 16 (ucast t1) + push_bit 24 (ucast t0))) :: 32 word)
        = word_of_int ?S"
    by (simp add: push_bit_eq_mult ucast_eq[symmetric] word_of_int_uint)
  have bnd: "uint t0 < 256" "uint t1 < 256" "uint t2 < 256" "uint t3 < 256"
    using uint_lt2p[of t0] uint_lt2p[of t1] uint_lt2p[of t2] uint_lt2p[of t3] by simp_all
  have nn: "0 \<le> uint t0" "0 \<le> uint t1" "0 \<le> uint t2" "0 \<le> uint t3"
    by simp_all
  have "0 \<le> ?S" "?S < 2 ^ 32"
    using bnd nn by simp_all
  then have "uint (word_of_int ?S :: 32 word) = ?S"
    by (rule uint_uint32_Unix)
  then show ?thesis
    unfolding be32_or_add w .
qed

section \<open>Connection IDs: what Generate and Validate compute\<close>

lemma Generate_value:
  assumes "length (connID g) = 8"
  shows "\<exists>g1. Generate g ip now =
           Inr (be_bytes 4 (word_of_int (Unix now) :: 32 word) @
                take 4 (be_bytes 32 (mac g (be_bytes 4 (word_of_int (Unix now) :: 32 word) @ MarshalBinary ip))), g1)
         \<and> mac g1 = mac g \<and> length (connID g1) = 8"
  using assms
  by (simp add: Generate_def reset_def PutUint32_def Let_def Write_def Sum_def be_bytes_4 length_be_bytes)

lemma Validate_value:
  assumes "4 \<le> length (shown c)"
  shows "\<exists>u g1. Uint32 (take 4 (shown c)) = Inr u \<and>
           Validate g c ip now skew =
           Inr (\<not> (now > time_Unix (uint u) 0 + ttl \<or> time_Unix (uint u) 0 > now + skew) \<and>
                drop 4 (shown c) = take 4 (be_bytes 32 (mac g (take 4 (shown c) @ MarshalBinary ip))), g1)"
  using assms
  by (auto simp: Validate_def Validate_timed_def slice_upto_def slice_from_def Uint32_def Let_def
      reset_def Write_def Sum_def hmac_Equal_value)

text \<open>The buffer of a generator keeps its 8 bytes, and its key does not change.\<close>

lemma generator_buffers:
  "length (connID (NewConnectionIDGenerator h key)) = 8"
  "Generate g ip now = Inr (c, g1) \<Longrightarrow> length (connID g) = 8 \<Longrightarrow>
     length (connID g1) = 8 \<and> mac g1 = mac g"
  "Validate g cid ip now skew = Inr (ok, g2) \<Longrightarrow> length (connID g) = 8 \<Longrightarrow>
     length (connID g2) = 8 \<and> mac g2 = mac g"
proof -
  show "length (connID (NewConnectionIDGenerator h key)) = 8"
    by (simp add: NewConnectionIDGenerator_def)
  show "length (connID g1) = 8 \<and> mac g1 = mac g"
    if "Generate g ip now = Inr (c, g1)" "length (connID g) = 8"
    using that Generate_value[OF that(2), of ip now] by auto
  show "length (connID g2) = 8 \<and> mac g2 = mac g"
    if "Validate g cid ip now skew = Inr (ok, g2)" "length (connID g) = 8"
    using that
    by (auto simp: Validate_def Validate_timed_def Let_def reset_def Write_def
        split: sum.splits if_splits prod.splits)
qed

section \<open>Client approval: the decision of the hook\<close>

lemma addClientIDs_Inr:
  "addClientIDs xs s = Inr r \<Longrightarrow> r = s |\<union>| fset_of_list xs \<and> (\<forall>x\<in>set xs. length x = 6)"
  by (induction xs arbitrary: s) (auto split: if_splits)

lemma NewHook_Inr:
  assumes "NewHook cfg = Inr h"
  shows "approved h = fset_of_list (Whitelist cfg)" "unapproved h = fset_of_list (Blacklist cfg)"
    "\<forall>x\<in>set (Whitelist cfg @ Blacklist cfg). length x = 6"
    "Whitelist cfg = [] \<or> Blacklist cfg = []"
  using assms
  by (auto simp: NewHook_def split: if_splits sum.splits dest!: addClientIDs_Inr)

lemma fcard_pos_iff: "(0 < fcard A) = (A \<noteq> {||})"
  by (metis fcard_fempty fcard_seteq fempty_fsubsetI gr0I less_nat_zero_code linorder_not_less)

text \<open>
  Claim C9. For a hook built by \<open>NewHook\<close> from a configuration it accepts (the approved
  set holds the whitelist, the unapproved set the blacklist) and every announce request:
  when the approved set is non-empty and the client ID of the peer ID is not in it,
  \<open>HandleAnnounce\<close> rejects with \<open>ErrClientUnapproved\<close>; otherwise, when the
  unapproved set is non-empty and the client ID is in it, it rejects with
  \<open>ErrClientUnapproved\<close>; otherwise it returns the context with no error.
\<close>

theorem HandleAnnounce_decision:
  assumes "NewHook cfg = Inr h"
  shows "HandleAnnounce bt h ctx p =
           (if approved h \<noteq> {||} \<and> NewClientID bt (ID p) |\<notin>| approved h then Inl ErrClientUnapproved
            else if unapproved h \<noteq> {||} \<and> NewClientID bt (ID p) |\<in>| unapproved h
              then Inl ErrClientUnapproved
            else Inr ctx)
         \<and> approved h = fset_of_list (Whitelist cfg)
         \<and> unapproved h = fset_of_list (Blacklist cfg)"
  using NewHook_Inr(1,2)[OF assms]
  by (simp add: HandleAnnounce_def Let_def fcard_pos_iff)

text \<open>A whitelist of one client ID: a peer ID that starts with it is admitted, another is not.\<close>

theorem HandleAnnounce_decision_witness:
  "NewHook \<lparr>Whitelist = [ [45, 65, 90, 50, 48, 54] ], Blacklist = []\<rparr>
     = Inr \<lparr>approved = {|[45, 65, 90, 50, 48, 54]|}, unapproved = {||}\<rparr>
   \<and> HandleAnnounce demo_bt \<lparr>approved = {|[45, 65, 90, 50, 48, 54]|}, unapproved = {||}\<rparr> ()
        \<lparr>ID = [45, 65, 90, 50, 48, 54, 48, 45, 1, 2, 3, 4, 5, 6, 7, 8, 9, 10, 11, 12], Addr = IPv4 0, Port = 1\<rparr>
     = Inr ()
   \<and> HandleAnnounce demo_bt \<lparr>approved = {|[45, 65, 90, 50, 48, 54]|}, unapproved = {||}\<rparr> ()
        \<lparr>ID = [45, 84, 82, 51, 48, 48, 48, 45, 1, 2, 3, 4, 5, 6, 7, 8, 9, 10, 11, 12], Addr = IPv4 0, Port = 1\<rparr>
     = Inl ErrClientUnapproved"
proof -
  have h: "NewHook \<lparr>Whitelist = [ [45, 65, 90, 50, 48, 54] ], Blacklist = []\<rparr>
     = Inr \<lparr>approved = {|[45, 65, 90, 50, 48, 54]|}, unapproved = {||}\<rparr>"
    by (simp add: NewHook_def)
  show ?thesis
    using h HandleAnnounce_decision[OF h, of demo_bt "()"]
    by (simp add: demo_bt_def)
qed

section \<open>Connection IDs: the round trip and the decision of Validate\<close>

text \<open>
  Claim C4, as amended. For every generator whose buffer \<open>connID\<close> holds 8 bytes, every
  IP address and every time \<open>now\<close> whose Unix seconds fit in 32 bits
  (\<open>0 \<le> now.Unix() < 2^32\<close>), \<open>Validate(Generate(ip, now), ip, now, 0)\<close> returns true,
  and \<open>Generate\<close> returns the big-endian 32-bit Unix timestamp followed by the first 4
  bytes of the HMAC of the timestamp bytes and the binary form of the address.
\<close>

theorem round_trip_in_range:
  assumes "length (connID g) = 8" and "0 \<le> Unix now" and "Unix now < 2 ^ 32"
  shows "round_trip g ip now = Inr True
         \<and> (\<exists>g1. Generate g ip now =
               Inr (be_bytes 4 (word_of_int (Unix now) :: 32 word) @
                    take 4 (be_bytes 32 (mac g (be_bytes 4 (word_of_int (Unix now) :: 32 word)
                                                  @ MarshalBinary ip))), g1))"
proof -
  let ?ts = "be_bytes 4 (word_of_int (Unix now) :: 32 word)"
  let ?c = "?ts @ take 4 (be_bytes 32 (mac g (?ts @ MarshalBinary ip)))"
  obtain g1 where gen: "Generate g ip now = Inr (?c, g1)" and m: "mac g1 = mac g"
    using Generate_value[OF assms(1), of ip now] by blast
  have len: "4 \<le> length (shown \<lparr>shown = ?c, spare = []\<rparr>)"
    by (simp add: length_be_bytes)
  obtain u g2 where u: "Uint32 (take 4 ?c) = Inr u"
    and v: "Validate g1 \<lparr>shown = ?c, spare = []\<rparr> ip now 0 =
           Inr (\<not> (now > time_Unix (uint u) 0 + ttl \<or> time_Unix (uint u) 0 > now + 0) \<and>
                drop 4 ?c = take 4 (be_bytes 32 (mac g1 (take 4 ?c @ MarshalBinary ip))), g2)"
    using Validate_value[OF len, of g1 ip now 0] by auto
  have "u = word_of_int (Unix now)"
    using u by (simp add: length_be_bytes be_bytes_4 Uint32_def be32_roundtrip)
  then have uu: "uint u = Unix now"
    using uint_uint32_Unix[OF assms(2,3)] by simp
  have t1: "\<not> now > time_Unix (uint u) 0 + ttl"
    unfolding uu using assms(2) by (simp add: time_Unix_def ttl_def Unix_def)
  have t2: "\<not> time_Unix (uint u) 0 > now + 0"
    unfolding uu by (simp add: time_Unix_def Unix_def)
  have "Validate g1 \<lparr>shown = ?c, spare = []\<rparr> ip now 0 = Inr (True, g2)"
    using v t1 t2 by (simp add: m length_be_bytes)
  then show ?thesis
    using gen by (auto simp: round_trip_def)
qed

text \<open>The key \<open>secret\<close>, the address 192.0.2.1 and a time in November 2023.\<close>

theorem round_trip_in_range_witness:
  "length (connID (NewConnectionIDGenerator demo_hmac [115, 101, 99, 114, 101, 116])) = 8
   \<and> 0 \<le> Unix 1700000000000000005 \<and> Unix 1700000000000000005 < 2 ^ 32
   \<and> round_trip (NewConnectionIDGenerator demo_hmac [115, 101, 99, 114, 101, 116])
        (IPv4 0xC0000201) 1700000000000000005 = Inr True"
proof -
  have a: "length (connID (NewConnectionIDGenerator demo_hmac [115, 101, 99, 114, 101, 116])) = 8"
    by (simp add: NewConnectionIDGenerator_def)
  have b: "0 \<le> Unix 1700000000000000005" and c: "Unix 1700000000000000005 < 2 ^ 32"
    by (simp_all add: Unix_def)
  show ?thesis
    using a b c round_trip_in_range[OF a b c, of "IPv4 0xC0000201"] by simp
qed

text \<open>
  At \<open>now.Unix() = 2^32\<close> the timestamp written is 0, which \<open>Validate\<close> reads as
  expired: the round trip returns false. The time check precedes the HMAC.
\<close>

theorem round_trip_year_2106:
  "round_trip (NewConnectionIDGenerator demo_hmac [115, 101, 99, 114, 101, 116])
     (IPv4 0xC0000201) 4294967296000000000 = Inr False"
  by (simp add: round_trip_def Generate_def Validate_def Validate_timed_def NewConnectionIDGenerator_def reset_def
      PutUint32_def Uint32_def Unix_def time_Unix_def ttl_def Write_def Sum_def Let_def
      slice_upto_def slice_from_def length_be_bytes)

text \<open>
  Claim C8. For every connection ID, of bytes \<open>t0 t1 t2 t3 m0 m1 m2 m3\<close>, every
  address, every \<open>now\<close> and every \<open>maxClockSkew\<close>, both in nanoseconds: the embedded
  timestamp \<open>ts\<close> is the big-endian number of the first 4 bytes, in seconds. \<open>Validate\<close>
  returns false when \<open>now > ts + ttl\<close> or \<open>ts > now + maxClockSkew\<close>, with \<open>ttl\<close> two minutes
  (120 000 000 000 ns), and then makes no comparison. Otherwise it returns true exactly
  when the last 4 bytes equal the first 4 bytes of the HMAC of the first 4 bytes followed
  by the binary form of the address, and the comparison takes constant time: it makes 4
  iterations, whatever the bytes compared and whether or not they are equal.
\<close>

theorem Validate_decision:
  assumes "shown connectionID = [t0, t1, t2, t3, m0, m1, m2, m3]"
  shows "let ts = (uint t0 * 16777216 + uint t1 * 65536 + uint t2 * 256 + uint t3) * 1000000000;
             rejected = (now > ts + 120000000000 \<or> ts > now + maxClockSkew);
             tag = take 4 (be_bytes 32 (mac g ([t0, t1, t2, t3] @ MarshalBinary ip)))
         in \<exists>g'. Validate_timed g connectionID ip now maxClockSkew =
                    Inr (if rejected then (False, 0) else ([m0, m1, m2, m3] = tag, 4), g')
                \<and> Validate g connectionID ip now maxClockSkew =
                    Inr (\<not> rejected \<and> [m0, m1, m2, m3] = tag, g')"
proof -
  define ts where "ts = (uint t0 * 16777216 + uint t1 * 65536 + uint t2 * 256 + uint t3) * 1000000000"
  define tag where "tag = take 4 (be_bytes 32 (mac g ([t0, t1, t2, t3] @ MarshalBinary ip)))"
  have head: "slice_upto connectionID 4 = Inr [t0, t1, t2, t3]"
    and rest: "slice_from connectionID 4 = Inr [m0, m1, m2, m3]"
    using assms by (simp_all add: slice_upto_def slice_from_def)
  obtain u where u: "Uint32 [t0, t1, t2, t3] = Inr u" and uu: "time_Unix (uint u) 0 = ts"
    by (simp add: Uint32_def uint_be32 time_Unix_def ts_def)
  have len: "length tag = 4"
    by (simp add: tag_def length_be_bytes)
  have cmp: "hmac_Equal tag [m0, m1, m2, m3] = ([m0, m1, m2, m3] = tag, 4)"
    unfolding hmac_Equal_value using len by auto
  have t: "\<exists>g'. Validate_timed g connectionID ip now maxClockSkew =
             Inr (if now > ts + 120000000000 \<or> ts > now + maxClockSkew then (False, 0)
                  else ([m0, m1, m2, m3] = tag, 4), g')
           \<and> Validate g connectionID ip now maxClockSkew =
             Inr (\<not> (now > ts + 120000000000 \<or> ts > now + maxClockSkew) \<and> [m0, m1, m2, m3] = tag, g')"
    using cmp
    by (simp add: Validate_def Validate_timed_def head rest u uu ttl_def Let_def reset_def
        Write_def Sum_def tag_def)
  show ?thesis
    unfolding Let_def using t unfolding ts_def tag_def .
qed

text \<open>
  A connection ID for 192.0.2.1 stamped at second 100. It is accepted within that second
  and at the last instant of its two minutes, after 4 iterations; it is rejected one
  nanosecond later without a comparison. A second before its timestamp it is accepted
  with a clock skew of one second and rejected with less. For 192.0.2.2 it is rejected
  after 4 iterations. A connection ID stamped at second \<open>2^24\<close>, with a tag that does
  not match, is rejected after 4 iterations at the last instant of its two minutes.
\<close>

theorem Validate_decision_witness:
  "shown \<lparr>shown = [0, 0, 0, 100, 178, 120, 107, 230], spare = []\<rparr>
     = [0, 0, 0, 100, 178, 120, 107, 230]
   \<and> (\<exists>g'. Validate_timed (NewConnectionIDGenerator demo_hmac [115])
              \<lparr>shown = [0, 0, 0, 100, 178, 120, 107, 230], spare = []\<rparr>
              (IPv4 0xC0000201) 100000000007 0 = Inr ((True, 4), g')
          \<and> Validate (NewConnectionIDGenerator demo_hmac [115])
              \<lparr>shown = [0, 0, 0, 100, 178, 120, 107, 230], spare = []\<rparr>
              (IPv4 0xC0000201) 100000000007 0 = Inr (True, g'))
   \<and> (\<exists>g'. Validate_timed (NewConnectionIDGenerator demo_hmac [115])
              \<lparr>shown = [0, 0, 0, 100, 178, 120, 107, 230], spare = []\<rparr>
              (IPv4 0xC0000201) 220000000000 0 = Inr ((True, 4), g'))
   \<and> (\<exists>g'. Validate_timed (NewConnectionIDGenerator demo_hmac [115])
              \<lparr>shown = [0, 0, 0, 100, 178, 120, 107, 230], spare = []\<rparr>
              (IPv4 0xC0000201) 220000000001 0 = Inr ((False, 0), g'))
   \<and> (\<exists>g'. Validate_timed (NewConnectionIDGenerator demo_hmac [115])
              \<lparr>shown = [0, 0, 0, 100, 178, 120, 107, 230], spare = []\<rparr>
              (IPv4 0xC0000201) 99000000000 1000000000 = Inr ((True, 4), g'))
   \<and> (\<exists>g'. Validate_timed (NewConnectionIDGenerator demo_hmac [115])
              \<lparr>shown = [0, 0, 0, 100, 178, 120, 107, 230], spare = []\<rparr>
              (IPv4 0xC0000201) 99000000000 999999999 = Inr ((False, 0), g'))
   \<and> (\<exists>g'. Validate_timed (NewConnectionIDGenerator demo_hmac [115])
              \<lparr>shown = [0, 0, 0, 100, 178, 120, 107, 230], spare = []\<rparr>
              (IPv4 0xC0000202) 100000000007 0 = Inr ((False, 4), g')
          \<and> Validate (NewConnectionIDGenerator demo_hmac [115])
              \<lparr>shown = [0, 0, 0, 100, 178, 120, 107, 230], spare = []\<rparr>
              (IPv4 0xC0000202) 100000000007 0 = Inr (False, g'))
   \<and> (\<exists>g'. Validate_timed (NewConnectionIDGenerator demo_hmac [115])
              \<lparr>shown = [1, 0, 0, 0, 178, 120, 107, 230], spare = []\<rparr>
              (IPv4 0xC0000201) 16777336000000000 0 = Inr ((False, 4), g'))
   \<and> (\<exists>g'. Validate_timed (NewConnectionIDGenerator demo_hmac [115])
              \<lparr>shown = [1, 0, 0, 0, 178, 120, 107, 230], spare = []\<rparr>
              (IPv4 0xC0000201) 16777336000000001 0 = Inr ((False, 0), g'))"
proof -
  let ?c = "\<lparr>shown = [0, 0, 0, 100, 178, 120, 107, 230], spare = []\<rparr>"
  let ?d = "\<lparr>shown = [1, 0, 0, 0, 178, 120, 107, 230], spare = []\<rparr>"
  let ?g = "NewConnectionIDGenerator demo_hmac [115]"
  have a: "shown ?c = [0, 0, 0, 100, 178, 120, 107, 230]" by simp
  have b: "shown ?d = [1, 0, 0, 0, 178, 120, 107, 230]" by simp
  have m: "mac ?g = demo_hmac [115]"
    by (simp add: NewConnectionIDGenerator_def)
  have t1: "take 4 (be_bytes 32 (demo_hmac [115] ([0, 0, 0, 100] @ MarshalBinary (IPv4 0xC0000201))))
              = [178, 120, 107, 230]"
    by code_simp
  have t2: "take 4 (be_bytes 32 (demo_hmac [115] ([0, 0, 0, 100] @ MarshalBinary (IPv4 0xC0000202))))
              \<noteq> [178, 120, 107, 230]"
    by code_simp
  have t3: "take 4 (be_bytes 32 (demo_hmac [115] ([1, 0, 0, 0] @ MarshalBinary (IPv4 0xC0000201))))
              \<noteq> [178, 120, 107, 230]"
    by code_simp
  note t = t1 t2 t2[symmetric] t3 t3[symmetric]
  have c1: "\<exists>g'. Validate_timed ?g ?c (IPv4 0xC0000201) 100000000007 0 = Inr ((True, 4), g')
          \<and> Validate ?g ?c (IPv4 0xC0000201) 100000000007 0 = Inr (True, g')"
    using Validate_decision[OF a, of 100000000007 0 ?g "IPv4 0xC0000201"] t by (simp add: m Let_def)
  have c2: "\<exists>g'. Validate_timed ?g ?c (IPv4 0xC0000201) 220000000000 0 = Inr ((True, 4), g')"
    using Validate_decision[OF a, of 220000000000 0 ?g "IPv4 0xC0000201"] t by (auto simp: m Let_def)
  have c3: "\<exists>g'. Validate_timed ?g ?c (IPv4 0xC0000201) 220000000001 0 = Inr ((False, 0), g')"
    using Validate_decision[OF a, of 220000000001 0 ?g "IPv4 0xC0000201"] t by (auto simp: m Let_def)
  have c4: "\<exists>g'. Validate_timed ?g ?c (IPv4 0xC0000201) 99000000000 1000000000 = Inr ((True, 4), g')"
    using Validate_decision[OF a, of 99000000000 1000000000 ?g "IPv4 0xC0000201"] t by (auto simp: m Let_def)
  have c5: "\<exists>g'. Validate_timed ?g ?c (IPv4 0xC0000201) 99000000000 999999999 = Inr ((False, 0), g')"
    using Validate_decision[OF a, of 99000000000 999999999 ?g "IPv4 0xC0000201"] t by (auto simp: m Let_def)
  have c6: "\<exists>g'. Validate_timed ?g ?c (IPv4 0xC0000202) 100000000007 0 = Inr ((False, 4), g')
          \<and> Validate ?g ?c (IPv4 0xC0000202) 100000000007 0 = Inr (False, g')"
    using Validate_decision[OF a, of 100000000007 0 ?g "IPv4 0xC0000202"] t by (simp add: m Let_def)
  have c7: "\<exists>g'. Validate_timed ?g ?d (IPv4 0xC0000201) 16777336000000000 0 = Inr ((False, 4), g')"
    using Validate_decision[OF b, of 16777336000000000 0 ?g "IPv4 0xC0000201"] t by (auto simp: m Let_def)
  have c8: "\<exists>g'. Validate_timed ?g ?d (IPv4 0xC0000201) 16777336000000001 0 = Inr ((False, 0), g')"
    using Validate_decision[OF b, of 16777336000000001 0 ?g "IPv4 0xC0000201"] t by (auto simp: m Let_def)
  show ?thesis
    using a c1 c2 c3 c4 c5 c6 c7 c8 by blast
qed

text \<open>
  Claim C10, as amended. \<open>Validate\<close> panics at the timestamp parse \<open>connectionID[:4]\<close>
  for every slice whose capacity is below 4 (so for every slice shorter than 4 bytes
  with no spare capacity). For every slice of length at least 4 it returns a boolean,
  and for lengths 4 to 7 that boolean is false. For a slice shorter than 4 bytes with
  capacity at least 4, the parse reads the backing array: \<open>Validate\<close> returns false when
  the time window rejects, and panics at \<open>connectionID[4:]\<close> otherwise.
\<close>

theorem Validate_bounds:
  "(length (shown c) + length (spare c) < 4 \<longrightarrow> Validate g c ip now skew = Inl PanicSliceBounds)
   \<and> (4 \<le> length (shown c) \<longrightarrow> (\<exists>b g'. Validate g c ip now skew = Inr (b, g')))
   \<and> (4 \<le> length (shown c) \<and> length (shown c) < 8 \<longrightarrow>
        (\<exists>g'. Validate g c ip now skew = Inr (False, g')))
   \<and> (length (shown c) < 4 \<and> 4 \<le> length (shown c) + length (spare c) \<longrightarrow>
        (\<exists>u. Uint32 (take 4 (shown c @ spare c)) = Inr u \<and>
             Validate g c ip now skew =
               (if now > time_Unix (uint u) 0 + ttl \<or> time_Unix (uint u) 0 > now + skew
                then Inr (False, g) else Inl PanicSliceBounds)))"
proof (intro conjI impI)
  assume "length (shown c) + length (spare c) < 4"
  then show "Validate g c ip now skew = Inl PanicSliceBounds"
    by (simp add: Validate_def Validate_timed_def slice_upto_def)
next
  assume "4 \<le> length (shown c)"
  from Validate_value[OF this, of g ip now skew]
  show "\<exists>b g'. Validate g c ip now skew = Inr (b, g')" by blast
next
  assume a: "4 \<le> length (shown c) \<and> length (shown c) < 8"
  then have "4 \<le> length (shown c)" by simp
  from Validate_value[OF this, of g ip now skew]
  obtain u :: "32 word" and g1 where v: "Validate g c ip now skew =
           Inr (\<not> (now > time_Unix (uint u) 0 + ttl \<or> time_Unix (uint u) 0 > now + skew) \<and>
                drop 4 (shown c) = take 4 (be_bytes 32 (mac g (take 4 (shown c) @ MarshalBinary ip))), g1)"
    by blast
  have "length (drop 4 (shown c)) < 4" using a by auto
  moreover have "length (take 4 (be_bytes 32 (mac g (take 4 (shown c) @ MarshalBinary ip)))) = 4"
    by (simp add: length_be_bytes)
  ultimately have "drop 4 (shown c) \<noteq> take 4 (be_bytes 32 (mac g (take 4 (shown c) @ MarshalBinary ip)))"
    by (metis less_irrefl)
  then show "\<exists>g'. Validate g c ip now skew = Inr (False, g')"
    using v by simp
next
  assume "length (shown c) < 4 \<and> 4 \<le> length (shown c) + length (spare c)"
  then show "\<exists>u. Uint32 (take 4 (shown c @ spare c)) = Inr u \<and>
             Validate g c ip now skew =
               (if now > time_Unix (uint u) 0 + ttl \<or> time_Unix (uint u) 0 > now + skew
                then Inr (False, g) else Inl PanicSliceBounds)"
    by (auto simp: Validate_def Validate_timed_def slice_upto_def slice_from_def Uint32_def Let_def)
qed

text \<open>Slices of length 2 and capacity 2, of length 5, and of length 2 and capacity 5.\<close>

theorem Validate_bounds_witness:
  "length (shown \<lparr>shown = [0, 0], spare = []\<rparr>) + length (spare \<lparr>shown = [0, 0], spare = []\<rparr>) < 4
   \<and> Validate (NewConnectionIDGenerator demo_hmac [115]) \<lparr>shown = [0, 0], spare = []\<rparr> (IPv4 0) 5 0
       = Inl PanicSliceBounds
   \<and> 4 \<le> length (shown \<lparr>shown = [0, 0, 0, 0, 9], spare = []\<rparr>)
   \<and> length (shown \<lparr>shown = [0, 0, 0, 0, 9], spare = []\<rparr>) < 8
   \<and> (\<exists>g'. Validate (NewConnectionIDGenerator demo_hmac [115]) \<lparr>shown = [0, 0, 0, 0, 9], spare = []\<rparr> (IPv4 0) 5 0
       = Inr (False, g'))
   \<and> length (shown \<lparr>shown = [0, 0], spare = [0, 0, 7]\<rparr>) < 4
   \<and> 4 \<le> length (shown \<lparr>shown = [0, 0], spare = [0, 0, 7]\<rparr>) + length (spare \<lparr>shown = [0, 0], spare = [0, 0, 7]\<rparr>)
   \<and> Validate (NewConnectionIDGenerator demo_hmac [115]) \<lparr>shown = [0, 0], spare = [0, 0, 7]\<rparr> (IPv4 0) 5 0
       = Inl PanicSliceBounds"
  using Validate_bounds[of "\<lparr>shown = [0, 0], spare = []\<rparr>" "NewConnectionIDGenerator demo_hmac [115]" "IPv4 0" 5 0]
    Validate_bounds[of "\<lparr>shown = [0, 0, 0, 0, 9], spare = []\<rparr>" "NewConnectionIDGenerator demo_hmac [115]" "IPv4 0" 5 0]
    Validate_bounds[of "\<lparr>shown = [0, 0], spare = [0, 0, 7]\<rparr>" "NewConnectionIDGenerator demo_hmac [115]" "IPv4 0" 5 0]
  by (simp add: Uint32_def time_Unix_def ttl_def)

text \<open>
  A slice of length 2 whose backing array holds 5 bytes, with an old timestamp: the parse
  does not panic and \<open>Validate\<close> returns false.
\<close>

theorem Validate_short_with_capacity:
  "Validate (NewConnectionIDGenerator demo_hmac [115]) \<lparr>shown = [0, 0], spare = [0, 0, 7]\<rparr>
     (IPv4 0xC0000201) 1700000000000000005 0
   = Inr (False, NewConnectionIDGenerator demo_hmac [115])"
  by (simp add: Validate_def Validate_timed_def slice_upto_def Uint32_def time_Unix_def ttl_def)

section \<open>Shards: reading and writing swarms\<close>

lemma swarm_at_Some: "fmlookup (swarms shard) ih = Some sw \<Longrightarrow> swarm_at shard ih = sw"
  by (simp add: swarm_at_def)

lemma swarm_at_counters [simp]:
  "swarm_at (shard\<lparr>numSeeders := a\<rparr>) ih = swarm_at shard ih"
  "swarm_at (shard\<lparr>numLeechers := b\<rparr>) ih = swarm_at shard ih"
  by (simp_all add: swarm_at_def)

lemma len_zero_iff: "(len m = 0) = (m = fmempty)"
  by (metis fmrestrict_fset_dom fmrestrict_fset_null fcard_fempty fcard_seteq fempty_fsubsetI
      fmdom_empty len_def of_nat_eq_0_iff le_refl)

lemma len_nonneg [simp]: "0 \<le> len m"
  by (simp add: len_def)

lemma len_or_zero: "(len a OR len b = 0) = (a = fmempty \<and> b = fmempty)"
  by (simp add: or_eq_0_iff len_zero_iff)

lemma swarm_nonempty_iff: "swarm_nonempty sw = (seeders sw \<noteq> fmempty \<or> leechers sw \<noteq> fmempty)"
  using len_nonneg[of "seeders sw"] len_nonneg[of "leechers sw"] len_zero_iff[of "seeders sw"] len_zero_iff[of "leechers sw"]
  unfolding swarm_nonempty_def by linarith

section \<open>Sizes and sums\<close>

lemma len_fmupd: "len (fmupd k v m) = (if k |\<in>| fmdom m then len m else len m + 1)"
  by (simp add: len_def fcard_finsert_if)

lemma len_fmdrop: "len (fmdrop k m) = (if k |\<in>| fmdom m then len m - 1 else len m)"
proof (cases "k |\<in>| fmdom m")
  case True
  then have "fcard (fmdom m |-| {|k|}) = fcard (fmdom m) - 1"
    by (simp add: fcard_fminus1_less)
  moreover have "0 < fcard (fmdom m)"
    using True by (metis fcard_fempty fcard_seteq fempty_fsubsetI fempty_iff gr0I le_refl)
  ultimately show ?thesis using True by (simp add: len_def)
next
  case False
  then show ?thesis by (simp add: len_def)
qed

lemma len_fmempty [simp]: "len fmempty = 0"
  by (simp add: len_def)

lemma sumSwarms_fmupd:
  "sumSwarms f (fmupd ih sw m) =
     sumSwarms f m - (case fmlookup m ih of None \<Rightarrow> 0 | Some old \<Rightarrow> f old) + f sw"
proof -
  let ?g = "\<lambda>m k. case fmlookup m k of None \<Rightarrow> 0 | Some s \<Rightarrow> f s"
  have fin: "finite (fset (fmdom m))" by simp
  have same: "(\<Sum>k\<in>fset (fmdom m) - {ih}. ?g (fmupd ih sw m) k) = (\<Sum>k\<in>fset (fmdom m) - {ih}. ?g m k)"
    by (rule sum.cong) auto
  have "sumSwarms f (fmupd ih sw m) = (\<Sum>k\<in>insert ih (fset (fmdom m)). ?g (fmupd ih sw m) k)"
    by (simp add: sumSwarms_def)
  also have "\<dots> = ?g (fmupd ih sw m) ih + (\<Sum>k\<in>fset (fmdom m) - {ih}. ?g (fmupd ih sw m) k)"
    using fin by (rule sum.insert_remove)
  also have "\<dots> = f sw + (\<Sum>k\<in>fset (fmdom m) - {ih}. ?g m k)"
    using same by simp
  finally have a: "sumSwarms f (fmupd ih sw m) = f sw + (\<Sum>k\<in>fset (fmdom m) - {ih}. ?g m k)" .
  have b: "sumSwarms f m = ?g m ih + (\<Sum>k\<in>fset (fmdom m) - {ih}. ?g m k)"
  proof (cases "ih |\<in>| fmdom m")
    case True
    then show ?thesis
      unfolding sumSwarms_def using fin by (simp add: sum.remove)
  next
    case False
    then have "fset (fmdom m) - {ih} = fset (fmdom m)" by auto
    then show ?thesis using False by (simp add: sumSwarms_def fmdom_notD)
  qed
  show ?thesis using a b by simp
qed

lemma sumSwarms_fmdrop:
  "sumSwarms f (fmdrop ih m) =
     sumSwarms f m - (case fmlookup m ih of None \<Rightarrow> 0 | Some old \<Rightarrow> f old)"
proof -
  let ?g = "\<lambda>m k. case fmlookup m k of None \<Rightarrow> 0 | Some s \<Rightarrow> f s"
  have fin: "finite (fset (fmdom m))" by simp
  have "sumSwarms f (fmdrop ih m) = (\<Sum>k\<in>fset (fmdom m) - {ih}. ?g (fmdrop ih m) k)"
    by (simp add: sumSwarms_def)
  also have "\<dots> = (\<Sum>k\<in>fset (fmdom m) - {ih}. ?g m k)"
    by (rule sum.cong) auto
  finally have a: "sumSwarms f (fmdrop ih m) = (\<Sum>k\<in>fset (fmdom m) - {ih}. ?g m k)" .
  have b: "sumSwarms f m = ?g m ih + (\<Sum>k\<in>fset (fmdom m) - {ih}. ?g m k)"
  proof (cases "ih |\<in>| fmdom m")
    case True
    then show ?thesis
      unfolding sumSwarms_def using fin by (simp add: sum.remove)
  next
    case False
    then have "fset (fmdom m) - {ih} = fset (fmdom m)" by auto
    then show ?thesis using False by (simp add: sumSwarms_def fmdom_notD)
  qed
  show ?thesis using a b by simp
qed

lemma sumSwarms_empty [simp]: "sumSwarms f fmempty = 0"
  by (simp add: sumSwarms_def)

lemma old_seeders: "(case fmlookup (swarms shard) ih of None \<Rightarrow> 0 | Some old \<Rightarrow> len (seeders old)) = len (seeders (swarm_at shard ih))"
  by (simp add: swarm_at_def split: option.splits)

lemma old_leechers: "(case fmlookup (swarms shard) ih of None \<Rightarrow> 0 | Some old \<Rightarrow> len (leechers old)) = len (leechers (swarm_at shard ih))"
  by (simp add: swarm_at_def split: option.splits)

text \<open>Replacing or removing the swarm of one info-hash changes the totals by its sizes.\<close>

lemma totals_fmupd:
  "totalSeeders (shard\<lparr>swarms := fmupd ih sw (swarms shard)\<rparr>) =
     totalSeeders shard - len (seeders (swarm_at shard ih)) + len (seeders sw)"
  "totalLeechers (shard\<lparr>swarms := fmupd ih sw (swarms shard)\<rparr>) =
     totalLeechers shard - len (leechers (swarm_at shard ih)) + len (leechers sw)"
  by (simp_all add: totalSeeders_def totalLeechers_def sumSwarms_fmupd old_seeders old_leechers)

lemma totals_fmdrop:
  "totalSeeders (shard\<lparr>swarms := fmdrop ih (swarms shard)\<rparr>) =
     totalSeeders shard - len (seeders (swarm_at shard ih))"
  "totalLeechers (shard\<lparr>swarms := fmdrop ih (swarms shard)\<rparr>) =
     totalLeechers shard - len (leechers (swarm_at shard ih))"
  by (simp_all add: totalSeeders_def totalLeechers_def sumSwarms_fmdrop old_seeders old_leechers)

lemma totals_counters [simp]:
  "totalSeeders (shard\<lparr>numSeeders := a\<rparr>) = totalSeeders shard"
  "totalSeeders (shard\<lparr>numLeechers := b\<rparr>) = totalSeeders shard"
  "totalLeechers (shard\<lparr>numSeeders := a\<rparr>) = totalLeechers shard"
  "totalLeechers (shard\<lparr>numLeechers := b\<rparr>) = totalLeechers shard"
  by (simp_all add: totalSeeders_def totalLeechers_def)

section \<open>The bodies run under the lock of a shard\<close>

lemma swarm_at_swarms_update:
  "swarm_at (shard\<lparr>swarms := m\<rparr>) k =
     (case fmlookup m k of None \<Rightarrow> \<lparr>seeders = fmempty, leechers = fmempty\<rparr> | Some sw \<Rightarrow> sw)"
  by (simp add: swarm_at_def)

lemma swarm_at_empty_iff:
  "ih |\<notin>| fmdom (swarms shard) \<Longrightarrow> swarm_at shard ih = \<lparr>seeders = fmempty, leechers = fmempty\<rparr>"
  by (simp add: swarm_at_def fmdom_notD)

lemma swarm_both_updates:
  "(sw :: swarm)\<lparr>leechers := a, seeders := b\<rparr> = \<lparr>seeders = b, leechers = a\<rparr>"
  by (cases sw) simp

lemma swarm_seeders_update:
  "(sw :: swarm)\<lparr>seeders := b\<rparr> = \<lparr>seeders = b, leechers = leechers sw\<rparr>"
  by (cases sw) simp

lemma PutSeeder_locked_eq:
  "PutSeeder_locked ih pk clock shard =
     shard\<lparr>swarms := fmupd ih ((swarm_at shard ih)\<lparr>seeders := fmupd pk clock (seeders (swarm_at shard ih))\<rparr>)
                        (swarms shard),
            numSeeders := (if pk |\<in>| fmdom (seeders (swarm_at shard ih))
                           then numSeeders shard else numSeeders shard + 1)\<rparr>"
  by (auto simp: PutSeeder_locked_def Let_def setSeeders_def ensureSwarm_def
      swarm_at_swarms_update swarm_at_empty_iff)

lemma PutLeecher_locked_eq:
  "PutLeecher_locked ih pk clock shard =
     shard\<lparr>swarms := fmupd ih ((swarm_at shard ih)\<lparr>leechers := fmupd pk clock (leechers (swarm_at shard ih))\<rparr>)
                        (swarms shard),
            numLeechers := (if pk |\<in>| fmdom (leechers (swarm_at shard ih))
                            then numLeechers shard else numLeechers shard + 1)\<rparr>"
  by (auto simp: PutLeecher_locked_def Let_def setLeechers_def ensureSwarm_def
      swarm_at_swarms_update swarm_at_empty_iff)

lemma GraduateLeecher_locked_eq:
  "GraduateLeecher_locked ih pk clock shard =
     shard\<lparr>swarms := fmupd ih \<lparr>seeders = fmupd pk clock (seeders (swarm_at shard ih)),
                               leechers = fmdrop pk (leechers (swarm_at shard ih))\<rparr>
                        (swarms shard),
            numSeeders := (if pk |\<in>| fmdom (seeders (swarm_at shard ih))
                           then numSeeders shard else numSeeders shard + 1),
            numLeechers := (if pk |\<in>| fmdom (leechers (swarm_at shard ih))
                            then numLeechers shard - 1 else numLeechers shard)\<rparr>"
  by (auto simp: GraduateLeecher_locked_def Let_def setSeeders_def setLeechers_def ensureSwarm_def
      swarm_at_swarms_update swarm_at_empty_iff fmdrop_idle swarm_both_updates
      swarm_seeders_update)

lemma DeleteSeeder_locked_eq:
  "DeleteSeeder_locked ih pk shard =
     (if ih |\<notin>| fmdom (swarms shard) \<or> pk |\<notin>| fmdom (seeders (swarm_at shard ih))
      then Inl ErrResourceDoesNotExist
      else Inr (shard\<lparr>swarms :=
                        (if fmdrop pk (seeders (swarm_at shard ih)) = fmempty \<and>
                            leechers (swarm_at shard ih) = fmempty
                         then fmdrop ih (swarms shard)
                         else fmupd ih ((swarm_at shard ih)\<lparr>seeders := fmdrop pk (seeders (swarm_at shard ih))\<rparr>)
                                (swarms shard)),
                      numSeeders := numSeeders shard - 1\<rparr>))"
  by (auto simp: DeleteSeeder_locked_def Let_def setSeeders_def dropIfEmpty_def len_or_zero
      fmdrop_fmupd_same swarm_at_swarms_update)

lemma DeleteLeecher_locked_eq:
  "DeleteLeecher_locked ih pk shard =
     (if ih |\<notin>| fmdom (swarms shard) \<or> pk |\<notin>| fmdom (leechers (swarm_at shard ih))
      then Inl ErrResourceDoesNotExist
      else Inr (shard\<lparr>swarms :=
                        (if seeders (swarm_at shard ih) = fmempty \<and>
                            fmdrop pk (leechers (swarm_at shard ih)) = fmempty
                         then fmdrop ih (swarms shard)
                         else fmupd ih ((swarm_at shard ih)\<lparr>leechers := fmdrop pk (leechers (swarm_at shard ih))\<rparr>)
                                (swarms shard)),
                      numLeechers := numLeechers shard - 1\<rparr>))"
  by (auto simp: DeleteLeecher_locked_def Let_def setLeechers_def dropIfEmpty_def len_or_zero
      fmdrop_fmupd_same swarm_at_swarms_update)

section \<open>The expiry loop\<close>

lemma expire_lookup:
  "fmlookup (fst (expire c ks (m, n))) k =
     (if k \<in> set ks \<and> (\<exists>t. fmlookup m k = Some t \<and> word_sle t c) then None else fmlookup m k)"
proof (induction ks arbitrary: m n)
  case Nil
  then show ?case by simp
next
  case (Cons pk rest)
  show ?case
  proof (cases "fmlookup m pk")
    case None
    then show ?thesis using Cons.IH[of m n] by auto
  next
    case (Some mtime)
    show ?thesis
    proof (cases "word_sle mtime c")
      case True
      then show ?thesis using Some Cons.IH[of "fmdrop pk m" "n - 1"] by auto
    next
      case False
      then show ?thesis using Some Cons.IH[of m n] by auto
    qed
  qed
qed

lemma expire_counter:
  "snd (expire c ks (m, n)) + word_of_int (len m) = n + word_of_int (len (fst (expire c ks (m, n))))"
proof (induction ks arbitrary: m n)
  case Nil
  then show ?case by simp
next
  case (Cons pk rest)
  show ?case
  proof (cases "fmlookup m pk")
    case None
    then show ?thesis using Cons.IH[of m n] by simp
  next
    case (Some mtime)
    show ?thesis
    proof (cases "word_sle mtime c")
      case True
      have "pk |\<in>| fmdom m" using Some by (simp add: fmdomI)
      then have "len (fmdrop pk m) = len m - 1" by (simp add: len_fmdrop)
      then show ?thesis using Some True Cons.IH[of "fmdrop pk m" "n - 1"] by simp
    next
      case False
      then show ?thesis using Some Cons.IH[of m n] by simp
    qed
  qed
qed

lemma expire_dom: "fmdom (fst (expire c ks (m, n))) |\<subseteq>| fmdom m"
proof
  fix k assume "k |\<in>| fmdom (fst (expire c ks (m, n)))"
  then obtain t where "fmlookup (fst (expire c ks (m, n))) k = Some t" by auto
  then have "fmlookup m k = Some t"
    unfolding expire_lookup by (auto split: if_splits)
  then show "k |\<in>| fmdom m" by (simp add: fmdomI)
qed

lemma expire_fixed: "all_after c m \<Longrightarrow> expire c ks (m, n) = (m, n)"
proof (induction ks)
  case Nil
  then show ?case by simp
next
  case (Cons pk rest)
  then show ?case by (auto simp: all_after_def fmpred_iff split: option.splits)
qed

lemma expire_all_after:
  assumes "fmdom m |\<subseteq>| fset_of_list ks"
  shows "all_after c (fst (expire c ks (m, n)))"
  unfolding all_after_def fmpred_iff
proof (intro allI impI)
  fix k t assume a: "fmlookup (fst (expire c ks (m, n))) k = Some t"
  then have l: "fmlookup m k = Some t" and "\<not> (k \<in> set ks \<and> (\<exists>t. fmlookup m k = Some t \<and> word_sle t c))"
    unfolding expire_lookup by (auto split: if_splits)
  moreover have "k \<in> set ks"
    using l assms by (metis fmdomI fset_of_list.rep_eq fsubsetD)
  ultimately show "\<not> word_sle t c" by auto
qed

lemma gc_locked_eq:
  "gc_locked it c ih shard =
     (if ih |\<notin>| fmdom (swarms shard) then shard
      else
        let sw = swarm_at shard ih;
            l = expire c (it (fmdom (leechers sw))) (leechers sw, numLeechers shard);
            s = expire c (it (fmdom (seeders sw))) (seeders sw, numSeeders shard)
        in shard\<lparr>swarms := (if fst s = fmempty \<and> fst l = fmempty then fmdrop ih (swarms shard)
                              else fmupd ih \<lparr>seeders = fst s, leechers = fst l\<rparr> (swarms shard)),
                  numSeeders := snd s, numLeechers := snd l\<rparr>)"
  by (auto simp: gc_locked_def Let_def split_beta setSeeders_def setLeechers_def dropIfEmpty_def
      len_or_zero swarm_at_swarms_update fmdrop_fmupd_same swarm_both_updates)

section \<open>What each body keeps of a shard\<close>

lemma fmpred_fmupdI: "fmpred (\<lambda>k. P) m \<Longrightarrow> P sw \<Longrightarrow> fmpred (\<lambda>k. P) (fmupd ih sw m)"
  by (auto simp: fmpred_iff split: if_splits)

lemma swarm_disjoint_iff:
  "swarm_disjoint sw = (\<forall>k. k |\<in>| fmdom (seeders sw) \<longrightarrow> k |\<notin>| fmdom (leechers sw))"
  unfolding swarm_disjoint_def by blast

lemma swarm_disjoint_at:
  "shard_disjoint shard \<Longrightarrow> swarm_disjoint (swarm_at shard ih)"
  by (auto simp: shard_disjoint_def swarm_disjoint_iff fmpred_iff swarm_at_def split: option.splits)

subsection \<open>Disjoint sides\<close>

lemma shard_disjoint_fmupd:
  "shard_disjoint shard \<Longrightarrow> swarm_disjoint sw \<Longrightarrow>
   shard_disjoint (shard\<lparr>swarms := fmupd ih sw (swarms shard), numSeeders := a\<rparr>)"
  "shard_disjoint shard \<Longrightarrow> swarm_disjoint sw \<Longrightarrow>
   shard_disjoint (shard\<lparr>swarms := fmupd ih sw (swarms shard), numLeechers := b\<rparr>)"
  "shard_disjoint shard \<Longrightarrow> swarm_disjoint sw \<Longrightarrow>
   shard_disjoint (shard\<lparr>swarms := fmupd ih sw (swarms shard), numSeeders := a, numLeechers := b\<rparr>)"
  by (simp_all add: shard_disjoint_def fmpred_fmupdI)

lemma shard_disjoint_fmdrop:
  "shard_disjoint shard \<Longrightarrow>
   shard_disjoint (shard\<lparr>swarms := fmdrop ih (swarms shard), numSeeders := a\<rparr>)"
  "shard_disjoint shard \<Longrightarrow>
   shard_disjoint (shard\<lparr>swarms := fmdrop ih (swarms shard), numLeechers := b\<rparr>)"
  "shard_disjoint shard \<Longrightarrow>
   shard_disjoint (shard\<lparr>swarms := fmdrop ih (swarms shard), numSeeders := a, numLeechers := b\<rparr>)"
  by (simp_all add: shard_disjoint_def fmpred_drop)

lemma swarm_disjoint_sub:
  assumes "swarm_disjoint sw" "fmdom s |\<subseteq>| fmdom (seeders sw)" "fmdom l |\<subseteq>| fmdom (leechers sw)"
  shows "swarm_disjoint \<lparr>seeders = s, leechers = l\<rparr>"
  using assms unfolding swarm_disjoint_iff by auto

lemma PutSeeder_locked_disjoint:
  assumes "shard_disjoint shard" and "pk |\<notin>| fmdom (leechers (swarm_at shard ih))"
  shows "shard_disjoint (PutSeeder_locked ih pk clock shard)"
proof -
  have "swarm_disjoint ((swarm_at shard ih)\<lparr>seeders := fmupd pk clock (seeders (swarm_at shard ih))\<rparr>)"
    using swarm_disjoint_at[OF assms(1), of ih] assms(2) by (simp add: swarm_disjoint_iff)
  then show ?thesis
    unfolding PutSeeder_locked_eq by (rule shard_disjoint_fmupd(1)[OF assms(1)])
qed

lemma PutLeecher_locked_disjoint:
  assumes "shard_disjoint shard" and "pk |\<notin>| fmdom (seeders (swarm_at shard ih))"
  shows "shard_disjoint (PutLeecher_locked ih pk clock shard)"
proof -
  have "swarm_disjoint ((swarm_at shard ih)\<lparr>leechers := fmupd pk clock (leechers (swarm_at shard ih))\<rparr>)"
    using swarm_disjoint_at[OF assms(1), of ih] assms(2) by (auto simp: swarm_disjoint_iff)
  then show ?thesis
    unfolding PutLeecher_locked_eq by (rule shard_disjoint_fmupd(2)[OF assms(1)])
qed

lemma GraduateLeecher_locked_disjoint:
  assumes "shard_disjoint shard"
  shows "shard_disjoint (GraduateLeecher_locked ih pk clock shard)"
proof -
  have "swarm_disjoint \<lparr>seeders = fmupd pk clock (seeders (swarm_at shard ih)),
                        leechers = fmdrop pk (leechers (swarm_at shard ih))\<rparr>"
    using swarm_disjoint_at[OF assms(1), of ih] by (simp add: swarm_disjoint_iff)
  then show ?thesis
    unfolding GraduateLeecher_locked_eq by (rule shard_disjoint_fmupd(3)[OF assms(1)])
qed

lemma DeleteSeeder_locked_disjoint:
  assumes "shard_disjoint shard" and "DeleteSeeder_locked ih pk shard = Inr shard'"
  shows "shard_disjoint shard'"
proof -
  have "swarm_disjoint ((swarm_at shard ih)\<lparr>seeders := fmdrop pk (seeders (swarm_at shard ih))\<rparr>)"
    using swarm_disjoint_at[OF assms(1), of ih] by (simp add: swarm_disjoint_iff)
  then show ?thesis
    using assms(2) shard_disjoint_fmupd(1)[OF assms(1)] shard_disjoint_fmdrop(1)[OF assms(1)]
    unfolding DeleteSeeder_locked_eq by (auto split: if_splits)
qed

lemma DeleteLeecher_locked_disjoint:
  assumes "shard_disjoint shard" and "DeleteLeecher_locked ih pk shard = Inr shard'"
  shows "shard_disjoint shard'"
proof -
  have "swarm_disjoint ((swarm_at shard ih)\<lparr>leechers := fmdrop pk (leechers (swarm_at shard ih))\<rparr>)"
    using swarm_disjoint_at[OF assms(1), of ih] by (simp add: swarm_disjoint_iff)
  then show ?thesis
    using assms(2) shard_disjoint_fmupd(2)[OF assms(1)] shard_disjoint_fmdrop(2)[OF assms(1)]
    unfolding DeleteLeecher_locked_eq by (auto split: if_splits)
qed

lemma gc_locked_disjoint:
  assumes "shard_disjoint shard"
  shows "shard_disjoint (gc_locked it c ih shard)"
proof -
  let ?sw = "swarm_at shard ih"
  have "swarm_disjoint \<lparr>seeders = fst (expire c ks (seeders ?sw, a)),
                         leechers = fst (expire c ks' (leechers ?sw, b))\<rparr>"
    for ks ks' a b
    by (rule swarm_disjoint_sub[OF swarm_disjoint_at[OF assms, of ih] expire_dom expire_dom])
  then show ?thesis
    using assms shard_disjoint_fmupd(3)[OF assms] shard_disjoint_fmdrop(3)[OF assms]
    unfolding gc_locked_eq by (simp add: Let_def)
qed

subsection \<open>No empty swarm\<close>

lemma shard_nonempty_fmupd:
  "shard_nonempty shard \<Longrightarrow> swarm_nonempty sw \<Longrightarrow>
   shard_nonempty (shard\<lparr>swarms := fmupd ih sw (swarms shard), numSeeders := a\<rparr>)"
  "shard_nonempty shard \<Longrightarrow> swarm_nonempty sw \<Longrightarrow>
   shard_nonempty (shard\<lparr>swarms := fmupd ih sw (swarms shard), numLeechers := b\<rparr>)"
  "shard_nonempty shard \<Longrightarrow> swarm_nonempty sw \<Longrightarrow>
   shard_nonempty (shard\<lparr>swarms := fmupd ih sw (swarms shard), numSeeders := a, numLeechers := b\<rparr>)"
  by (simp_all add: shard_nonempty_def fmpred_fmupdI)

lemma shard_nonempty_fmdrop:
  "shard_nonempty shard \<Longrightarrow>
   shard_nonempty (shard\<lparr>swarms := fmdrop ih (swarms shard), numSeeders := a\<rparr>)"
  "shard_nonempty shard \<Longrightarrow>
   shard_nonempty (shard\<lparr>swarms := fmdrop ih (swarms shard), numLeechers := b\<rparr>)"
  "shard_nonempty shard \<Longrightarrow>
   shard_nonempty (shard\<lparr>swarms := fmdrop ih (swarms shard), numSeeders := a, numLeechers := b\<rparr>)"
  by (simp_all add: shard_nonempty_def fmpred_drop)

lemma fmupd_not_empty: "fmupd k v m \<noteq> fmempty"
  by (metis fmap_distinct(2))

lemma PutSeeder_locked_nonempty:
  assumes "shard_nonempty shard"
  shows "shard_nonempty (PutSeeder_locked ih pk clock shard)"
proof -
  have "swarm_nonempty ((swarm_at shard ih)\<lparr>seeders := fmupd pk clock (seeders (swarm_at shard ih))\<rparr>)"
    by (simp add: swarm_nonempty_iff fmupd_not_empty)
  then show ?thesis
    unfolding PutSeeder_locked_eq by (rule shard_nonempty_fmupd(1)[OF assms(1)])
qed

lemma PutLeecher_locked_nonempty:
  assumes "shard_nonempty shard"
  shows "shard_nonempty (PutLeecher_locked ih pk clock shard)"
proof -
  have "swarm_nonempty ((swarm_at shard ih)\<lparr>leechers := fmupd pk clock (leechers (swarm_at shard ih))\<rparr>)"
    by (simp add: swarm_nonempty_iff fmupd_not_empty)
  then show ?thesis
    unfolding PutLeecher_locked_eq by (rule shard_nonempty_fmupd(2)[OF assms(1)])
qed

lemma GraduateLeecher_locked_nonempty:
  assumes "shard_nonempty shard"
  shows "shard_nonempty (GraduateLeecher_locked ih pk clock shard)"
proof -
  have "swarm_nonempty \<lparr>seeders = fmupd pk clock (seeders (swarm_at shard ih)),
                        leechers = fmdrop pk (leechers (swarm_at shard ih))\<rparr>"
    by (simp add: swarm_nonempty_iff fmupd_not_empty)
  then show ?thesis
    unfolding GraduateLeecher_locked_eq by (rule shard_nonempty_fmupd(3)[OF assms(1)])
qed

lemma DeleteSeeder_locked_nonempty:
  assumes "shard_nonempty shard" and "DeleteSeeder_locked ih pk shard = Inr shard'"
  shows "shard_nonempty shard'"
  using assms(2) shard_nonempty_fmupd(1)[OF assms(1)] shard_nonempty_fmdrop(1)[OF assms(1)]
  unfolding DeleteSeeder_locked_eq by (auto simp: swarm_nonempty_iff split: if_splits)

lemma DeleteLeecher_locked_nonempty:
  assumes "shard_nonempty shard" and "DeleteLeecher_locked ih pk shard = Inr shard'"
  shows "shard_nonempty shard'"
  using assms(2) shard_nonempty_fmupd(2)[OF assms(1)] shard_nonempty_fmdrop(2)[OF assms(1)]
  unfolding DeleteLeecher_locked_eq by (auto simp: swarm_nonempty_iff split: if_splits)

lemma gc_locked_nonempty:
  assumes "shard_nonempty shard"
  shows "shard_nonempty (gc_locked it c ih shard)"
  using assms shard_nonempty_fmupd(3)[OF assms] shard_nonempty_fmdrop(3)[OF assms]
  unfolding gc_locked_eq by (simp add: Let_def swarm_nonempty_iff)

subsection \<open>Counters\<close>

lemma len_one_if_drop_empty:
  assumes "pk |\<in>| fmdom m" "fmdrop pk m = fmempty"
  shows "len m = 1"
proof -
  have "len (fmdrop pk m) = len m - 1" using assms(1) by (simp add: len_fmdrop)
  then show ?thesis using assms(2) by simp
qed

lemma PutSeeder_locked_counters:
  assumes "counters_ok shard"
  shows "counters_ok (PutSeeder_locked ih pk clock shard)"
  using assms unfolding PutSeeder_locked_eq counters_ok_def
  by (simp add: totals_fmupd len_fmupd)

lemma PutLeecher_locked_counters:
  assumes "counters_ok shard"
  shows "counters_ok (PutLeecher_locked ih pk clock shard)"
  using assms unfolding PutLeecher_locked_eq counters_ok_def
  by (simp add: totals_fmupd len_fmupd)

lemma GraduateLeecher_locked_counters:
  assumes "counters_ok shard"
  shows "counters_ok (GraduateLeecher_locked ih pk clock shard)"
  using assms unfolding GraduateLeecher_locked_eq counters_ok_def
  by (simp add: totals_fmupd len_fmupd len_fmdrop)

lemma DeleteSeeder_locked_counters:
  assumes "counters_ok shard" and "DeleteSeeder_locked ih pk shard = Inr shard'"
  shows "counters_ok shard'"
proof (cases "fmdrop pk (seeders (swarm_at shard ih)) = fmempty \<and> leechers (swarm_at shard ih) = fmempty")
  case True
  have pk: "pk |\<in>| fmdom (seeders (swarm_at shard ih))"
    using assms(2) unfolding DeleteSeeder_locked_eq by (auto split: if_splits)
  have "len (seeders (swarm_at shard ih)) = 1"
    using len_one_if_drop_empty[OF pk] True by simp
  then show ?thesis
    using assms True unfolding DeleteSeeder_locked_eq counters_ok_def
    by (auto simp: totals_fmdrop split: if_splits)
next
  case False
  then show ?thesis
    using assms unfolding DeleteSeeder_locked_eq counters_ok_def
    by (auto simp: totals_fmupd len_fmdrop split: if_splits)
qed

lemma DeleteLeecher_locked_counters:
  assumes "counters_ok shard" and "DeleteLeecher_locked ih pk shard = Inr shard'"
  shows "counters_ok shard'"
proof (cases "seeders (swarm_at shard ih) = fmempty \<and> fmdrop pk (leechers (swarm_at shard ih)) = fmempty")
  case True
  have pk: "pk |\<in>| fmdom (leechers (swarm_at shard ih))"
    using assms(2) unfolding DeleteLeecher_locked_eq by (auto split: if_splits)
  have "len (leechers (swarm_at shard ih)) = 1"
    using len_one_if_drop_empty[OF pk] True by simp
  then show ?thesis
    using assms True unfolding DeleteLeecher_locked_eq counters_ok_def
    by (auto simp: totals_fmdrop split: if_splits)
next
  case False
  then show ?thesis
    using assms unfolding DeleteLeecher_locked_eq counters_ok_def
    by (auto simp: totals_fmupd len_fmdrop split: if_splits)
qed

lemma gc_locked_counters:
  assumes "counters_ok shard"
  shows "counters_ok (gc_locked it c ih shard)"
proof (cases "ih |\<in>| fmdom (swarms shard)")
  case False
  then show ?thesis using assms by (simp add: gc_locked_eq)
next
  case True
  define sw where "sw = swarm_at shard ih"
  define l where "l = expire c (it (fmdom (leechers sw))) (leechers sw, numLeechers shard)"
  define s where "s = expire c (it (fmdom (seeders sw))) (seeders sw, numSeeders shard)"
  have cl: "snd l = numLeechers shard + word_of_int (len (fst l)) - word_of_int (len (leechers sw))"
    using expire_counter[of c "it (fmdom (leechers sw))" "leechers sw" "numLeechers shard"]
    unfolding l_def by (simp add: algebra_simps)
  have cs: "snd s = numSeeders shard + word_of_int (len (fst s)) - word_of_int (len (seeders sw))"
    using expire_counter[of c "it (fmdom (seeders sw))" "seeders sw" "numSeeders shard"]
    unfolding s_def by (simp add: algebra_simps)
  have ns: "numSeeders shard = word_of_int (totalSeeders shard)"
    and nl: "numLeechers shard = word_of_int (totalLeechers shard)"
    using assms by (simp_all add: counters_ok_def)
  show ?thesis
  proof (cases "fst s = fmempty \<and> fst l = fmempty")
    case e: True
    have eq: "gc_locked it c ih shard =
        shard\<lparr>swarms := fmdrop ih (swarms shard), numSeeders := snd s, numLeechers := snd l\<rparr>"
      using True e by (simp add: gc_locked_eq Let_def l_def s_def sw_def)
    have "totalSeeders (gc_locked it c ih shard) = totalSeeders shard - len (seeders sw)"
      and "totalLeechers (gc_locked it c ih shard) = totalLeechers shard - len (leechers sw)"
      unfolding eq sw_def by (simp_all add: totals_fmdrop)
    moreover have "numSeeders (gc_locked it c ih shard) = snd s"
      and "numLeechers (gc_locked it c ih shard) = snd l"
      unfolding eq by simp_all
    ultimately show ?thesis
      unfolding counters_ok_def using cl cs e by (simp add: ns nl)
  next
    case e: False
    have eq: "gc_locked it c ih shard =
        shard\<lparr>swarms := fmupd ih \<lparr>seeders = fst s, leechers = fst l\<rparr> (swarms shard),
              numSeeders := snd s, numLeechers := snd l\<rparr>"
      using True e by (auto simp: gc_locked_eq Let_def l_def s_def sw_def)
    have "totalSeeders (gc_locked it c ih shard) = totalSeeders shard - len (seeders sw) + len (fst s)"
      and "totalLeechers (gc_locked it c ih shard) = totalLeechers shard - len (leechers sw) + len (fst l)"
      unfolding eq sw_def by (simp_all add: totals_fmupd)
    moreover have "numSeeders (gc_locked it c ih shard) = snd s"
      and "numLeechers (gc_locked it c ih shard) = snd l"
      unfolding eq by simp_all
    ultimately show ?thesis
      unfolding counters_ok_def using cl cs by (simp add: ns nl)
  qed
qed

section \<open>From shards to the store\<close>

lemma selectShard_Inr:
  "selectShard ps ih a = Inr i \<Longrightarrow> i < length (shards ps) \<and> \<not> closed ps"
  by (auto simp: selectShard_def split: if_splits sum.splits)

lemma onShard_Inr:
  assumes "onShard ps ih a body = Inr ps'"
  obtains i shard where "selectShard ps ih a = Inr i" "body (shards ps ! i) = Inr shard"
    "ps' = ps\<lparr>shards := (shards ps)[i := shard]\<rparr>"
  using assms by (auto simp: onShard_def split: sum.splits)

lemma onShard_list_all:
  assumes "list_all P (shards ps)" and "onShard ps ih a body = Inr ps'"
    and "\<And>i shard. selectShard ps ih a = Inr i \<Longrightarrow> P (shards ps ! i) \<Longrightarrow>
           body (shards ps ! i) = Inr shard \<Longrightarrow> P shard"
  shows "list_all P (shards ps')"
proof -
  from assms(2) obtain i shard where s: "selectShard ps ih a = Inr i"
    and b: "body (shards ps ! i) = Inr shard" and p: "ps' = ps\<lparr>shards := (shards ps)[i := shard]\<rparr>"
    by (rule onShard_Inr)
  have i: "i < length (shards ps)" using selectShard_Inr[OF s] by simp
  then have "P (shards ps ! i)" using assms(1) by (simp add: list_all_length)
  then have "P shard" using assms(3)[OF s _ b] by simp
  then show ?thesis
    using assms(1) i unfolding p by (auto simp: list_all_length nth_list_update)
qed

lemma fold_keeps:
  assumes "\<And>x s. P s \<Longrightarrow> P (f x s)" and "P s"
  shows "P (fold f xs s)"
  using assms(2) by (induction xs arbitrary: s) (simp_all add: assms(1))

lemma gc_list_all:
  assumes "list_all P (shards ps)" and "\<And>c ih shard. P shard \<Longrightarrow> P (gc_locked it c ih shard)"
  shows "list_all P (shards (gc it ps cutoff))"
proof -
  have "P (gc_shard it c shard)" if "P shard" for c shard
    unfolding gc_shard_def Let_def using assms(2) that by (rule fold_keeps)
  then show ?thesis
    using assms(1) by (auto simp: gc_def Let_def list_all_iff)
qed

lemma empty_shard_ok:
  "shard_disjoint \<lparr>swarms = fmempty, numSeeders = 0, numLeechers = 0\<rparr>"
  "shard_nonempty \<lparr>swarms = fmempty, numSeeders = 0, numLeechers = 0\<rparr>"
  "counters_ok \<lparr>swarms = fmempty, numSeeders = 0, numLeechers = 0\<rparr>"
  by (simp_all add: shard_disjoint_def shard_nonempty_def counters_ok_def totalSeeders_def
      totalLeechers_def)

lemma NewPeerStorage_ok:
  "store_disjoint (NewPeerStorage cfg)" "store_nonempty (NewPeerStorage cfg)"
  "store_counters_ok (NewPeerStorage cfg)"
  by (simp_all add: store_disjoint_def store_nonempty_def store_counters_ok_def
      NewPeerStorage_def Let_def list_all_iff empty_shard_ok)

lemma apply_op_counters:
  assumes "store_counters_ok ps" and "apply_op bt ps x = Inr ps'"
  shows "store_counters_ok ps'"
proof (cases x)
  case (OpPutSeeder ih p clock)
  then show ?thesis
    using assms unfolding store_counters_ok_def
    by (auto simp: PutSeeder_def elim!: onShard_list_all intro: PutSeeder_locked_counters)
next
  case (OpDeleteSeeder ih p)
  then show ?thesis
    using assms unfolding store_counters_ok_def
    by (auto simp: DeleteSeeder_def elim!: onShard_list_all intro: DeleteSeeder_locked_counters)
next
  case (OpPutLeecher ih p clock)
  then show ?thesis
    using assms unfolding store_counters_ok_def
    by (auto simp: PutLeecher_def elim!: onShard_list_all intro: PutLeecher_locked_counters)
next
  case (OpDeleteLeecher ih p)
  then show ?thesis
    using assms unfolding store_counters_ok_def
    by (auto simp: DeleteLeecher_def elim!: onShard_list_all intro: DeleteLeecher_locked_counters)
next
  case (OpGraduateLeecher ih p clock)
  then show ?thesis
    using assms unfolding store_counters_ok_def
    by (auto simp: GraduateLeecher_def elim!: onShard_list_all intro: GraduateLeecher_locked_counters)
next
  case (OpGC it cutoff)
  then show ?thesis
    using assms unfolding store_counters_ok_def
    by (auto intro!: gc_list_all gc_locked_counters)
qed

lemma apply_op_nonempty:
  assumes "store_nonempty ps" and "apply_op bt ps x = Inr ps'"
  shows "store_nonempty ps'"
proof (cases x)
  case (OpPutSeeder ih p clock)
  then show ?thesis
    using assms unfolding store_nonempty_def
    by (auto simp: PutSeeder_def elim!: onShard_list_all intro: PutSeeder_locked_nonempty)
next
  case (OpDeleteSeeder ih p)
  then show ?thesis
    using assms unfolding store_nonempty_def
    by (auto simp: DeleteSeeder_def elim!: onShard_list_all intro: DeleteSeeder_locked_nonempty)
next
  case (OpPutLeecher ih p clock)
  then show ?thesis
    using assms unfolding store_nonempty_def
    by (auto simp: PutLeecher_def elim!: onShard_list_all intro: PutLeecher_locked_nonempty)
next
  case (OpDeleteLeecher ih p)
  then show ?thesis
    using assms unfolding store_nonempty_def
    by (auto simp: DeleteLeecher_def elim!: onShard_list_all intro: DeleteLeecher_locked_nonempty)
next
  case (OpGraduateLeecher ih p clock)
  then show ?thesis
    using assms unfolding store_nonempty_def
    by (auto simp: GraduateLeecher_def elim!: onShard_list_all intro: GraduateLeecher_locked_nonempty)
next
  case (OpGC it cutoff)
  then show ?thesis
    using assms unfolding store_nonempty_def
    by (auto intro!: gc_list_all gc_locked_nonempty)
qed

lemma apply_op_disjoint:
  assumes "store_disjoint ps" and "apply_op bt ps x = Inr ps'" and "\<not> onOtherSide bt ps x"
  shows "store_disjoint ps'"
proof (cases x)
  case (OpPutSeeder ih p clock)
  have "shard_disjoint (PutSeeder_locked ih (RawString bt p) clock (shards ps ! i))"
    if "selectShard ps ih (Addr p) = Inr i" "shard_disjoint (shards ps ! i)" for i
    using that assms(3) OpPutSeeder
    by (auto simp: onOtherSide_def intro: PutSeeder_locked_disjoint)
  then show ?thesis
    using assms(1,2) OpPutSeeder unfolding store_disjoint_def
    by (auto simp: PutSeeder_def elim!: onShard_list_all)
next
  case (OpDeleteSeeder ih p)
  then show ?thesis
    using assms unfolding store_disjoint_def
    by (auto simp: DeleteSeeder_def elim!: onShard_list_all intro: DeleteSeeder_locked_disjoint)
next
  case (OpPutLeecher ih p clock)
  have "shard_disjoint (PutLeecher_locked ih (RawString bt p) clock (shards ps ! i))"
    if "selectShard ps ih (Addr p) = Inr i" "shard_disjoint (shards ps ! i)" for i
    using that assms(3) OpPutLeecher
    by (auto simp: onOtherSide_def intro: PutLeecher_locked_disjoint)
  then show ?thesis
    using assms(1,2) OpPutLeecher unfolding store_disjoint_def
    by (auto simp: PutLeecher_def elim!: onShard_list_all)
next
  case (OpDeleteLeecher ih p)
  then show ?thesis
    using assms unfolding store_disjoint_def
    by (auto simp: DeleteLeecher_def elim!: onShard_list_all intro: DeleteLeecher_locked_disjoint)
next
  case (OpGraduateLeecher ih p clock)
  then show ?thesis
    using assms unfolding store_disjoint_def
    by (auto simp: GraduateLeecher_def elim!: onShard_list_all intro: GraduateLeecher_locked_disjoint)
next
  case (OpGC it cutoff)
  then show ?thesis
    using assms unfolding store_disjoint_def
    by (auto intro!: gc_list_all gc_locked_disjoint)
qed

lemma step_counters: "store_counters_ok ps \<Longrightarrow> store_counters_ok (step bt ps x)"
  by (auto simp: step_def split: sum.splits intro: apply_op_counters)

lemma step_nonempty: "store_nonempty ps \<Longrightarrow> store_nonempty (step bt ps x)"
  by (auto simp: step_def split: sum.splits intro: apply_op_nonempty)

lemma step_disjoint:
  "store_disjoint ps \<Longrightarrow> \<not> onOtherSide bt ps x \<Longrightarrow> store_disjoint (step bt ps x)"
  by (auto simp: step_def split: sum.splits intro: apply_op_disjoint)

lemma run_counters: "store_counters_ok ps \<Longrightarrow> store_counters_ok (run bt ps xs)"
  by (induction xs arbitrary: ps) (simp_all add: step_counters)

lemma run_nonempty: "store_nonempty ps \<Longrightarrow> store_nonempty (run bt ps xs)"
  by (induction xs arbitrary: ps) (simp_all add: step_nonempty)

lemma run_disjoint:
  "store_disjoint ps \<Longrightarrow> one_sided bt ps xs \<Longrightarrow> store_disjoint (run bt ps xs)"
  by (induction xs arbitrary: ps) (simp_all add: step_disjoint)

subsection \<open>Selecting the shard\<close>

lemma selectShard_total:
  assumes "\<not> closed ps" and "4 \<le> length ih" and "length (shards ps) = 2 * n"
    and "0 < n" and "n < 2 ^ 31"
  shows "\<exists>i. selectShard ps ih a = Inr i \<and> i < 2 * n \<and> (Is6 a \<longleftrightarrow> n \<le> i)"
proof -
  obtain u where u: "Uint32 (take 4 ih) = Inr u"
    using assms(2) by (simp add: Uint32_def)
  have of_nat32: "unat (word_of_nat k :: 32 word) = k" if "k < 2 ^ 32" for k
    using that by (simp add: unat_of_nat take_bit_nat_eq_self)
  define w :: "32 word" where "w = word_of_nat (length (shards ps))"
  have uw: "unat w = 2 * n"
    unfolding w_def assms(3) using assms(5) by (intro of_nat32) simp
  have "unat (w div 2) = n"
    by (simp add: unat_div uw)
  moreover have "unat (word_of_nat n :: 32 word) = n"
    using assms(5) by (intro of_nat32) simp
  ultimately have half: "w div 2 = word_of_nat n"
    by (simp add: word_unat_eq_iff)
  have un: "unat (word_of_nat n :: 32 word) = n"
    using assms(5) by (simp add: unat_of_nat take_bit_nat_eq_self)
  have nz: "(word_of_nat n :: 32 word) \<noteq> 0"
    using un assms(4) by (metis unat_0 less_numeral_extra(3))
  have lt: "unat (u mod word_of_nat n) < n"
    using un assms(4) by (simp add: unat_mod)
  have add: "unat (u mod word_of_nat n + word_of_nat n) = unat (u mod word_of_nat n) + n"
  proof -
    have "unat (u mod word_of_nat n) + unat (word_of_nat n :: 32 word) < 2 ^ 32"
      using lt un assms(5) by simp
    then have "unat (u mod word_of_nat n + word_of_nat n) =
        unat (u mod word_of_nat n) + unat (word_of_nat n :: 32 word)"
      by (simp add: unat_word_ariths take_bit_nat_eq_self)
    then show ?thesis
      using un by simp
  qed
  have idx: "shardIndex ps ih a =
      Inr (if Is6 a then u mod word_of_nat n + word_of_nat n else u mod word_of_nat n)"
    using assms(2) u nz half[unfolded w_def]
    by (simp add: shardIndex_def Let_def assms(3))
  show ?thesis
    using assms(1,3) lt add
    by (auto simp: selectShard_def idx)
qed

text \<open>The operations keep the number of shards and leave the store open.\<close>

lemma onShard_shape:
  "onShard ps ih a body = Inr ps' \<Longrightarrow>
     length (shards ps') = length (shards ps) \<and> closed ps' = closed ps"
  by (auto simp: onShard_def split: sum.splits)

lemma step_shape:
  "length (shards (step bt ps x)) = length (shards ps) \<and> closed (step bt ps x) = closed ps"
proof (cases "apply_op bt ps x")
  case (Inl e)
  then show ?thesis by (simp add: step_def)
next
  case (Inr ps')
  then have "length (shards ps') = length (shards ps) \<and> closed ps' = closed ps"
    by (cases x)
      (auto simp: PutSeeder_def DeleteSeeder_def PutLeecher_def DeleteLeecher_def
        GraduateLeecher_def gc_def Let_def dest: onShard_shape split: if_splits)
  then show ?thesis using Inr by (simp add: step_def)
qed

lemma run_shape:
  "length (shards (run bt ps xs)) = length (shards ps) \<and> closed (run bt ps xs) = closed ps"
  by (induction xs arbitrary: ps) (simp_all add: step_shape)

lemma NewPeerStorage_shape:
  "length (shards (NewPeerStorage cfg)) = 2 * nat (ShardCount (Config_Validate cfg))"
  "0 < ShardCount (Config_Validate cfg)"
  "\<not> closed (NewPeerStorage cfg)"
  by (auto simp: NewPeerStorage_def Let_def Config_Validate_def defaultShardCount_def MaxInt_def
      nat_mult_distrib)

text \<open>
  With fewer than \<open>2^31\<close> shards per address family (the default is 1024), every
  operation on a store reached from \<open>NewPeerStorage\<close> finds its shard when the info-hash
  has at least 4 bytes; \<open>GraduateLeecher\<close> then succeeds.
\<close>

lemma reachable_selectShard:
  assumes "ShardCount (Config_Validate cfg) < 2 ^ 31" and "4 \<le> length ih"
  shows "\<exists>i. selectShard (run bt (NewPeerStorage cfg) xs) ih a = Inr i"
proof -
  let ?n = "nat (ShardCount (Config_Validate cfg))"
  let ?ps = "run bt (NewPeerStorage cfg) xs"
  have "\<not> closed ?ps" and "length (shards ?ps) = 2 * ?n"
    using run_shape[of bt "NewPeerStorage cfg" xs] NewPeerStorage_shape(1,3)[of cfg] by simp_all
  moreover have "0 < ?n" and "?n < 2 ^ 31"
    using NewPeerStorage_shape(2)[of cfg] assms(1) by simp_all
  ultimately show ?thesis
    using selectShard_total[of ?ps ih ?n a] assms(2) by blast
qed

subsection \<open>The counters, the two sides and the empty swarms\<close>

lemma totals_nonneg: "0 \<le> totalSeeders shard" "0 \<le> totalLeechers shard"
  by (auto simp: totalSeeders_def totalLeechers_def sumSwarms_def intro!: sum_nonneg split: option.splits)

text \<open>
  Claim C2. The counters of every shard equal the sums over its swarms: \<open>numSeeders\<close> is
  the sum of \<open>len(swarm.seeders)\<close> and \<open>numLeechers\<close> the sum of
  \<open>len(swarm.leechers)\<close>, as 64-bit unsigned values (and as integers while the sums are
  below \<open>2^64\<close>). The equality holds in a new store and is kept by every operation run
  to completion (\<open>PutSeeder\<close>, \<open>DeleteSeeder\<close>, \<open>PutLeecher\<close>, \<open>DeleteLeecher\<close>,
  \<open>GraduateLeecher\<close>, \<open>gc\<close>), hence by every sequence of them.
\<close>

theorem counters_preserved:
  "store_counters_ok (run bt (NewPeerStorage cfg) xs)
   \<and> (store_counters_ok ps \<longrightarrow> store_counters_ok (step bt ps x))
   \<and> (store_counters_ok ps \<longrightarrow> store_counters_ok (run bt ps xs))
   \<and> (counters_ok shard \<and> totalSeeders shard < 2 ^ 64 \<and> totalLeechers shard < 2 ^ 64 \<longrightarrow>
        uint (numSeeders shard) = totalSeeders shard \<and> uint (numLeechers shard) = totalLeechers shard)"
proof (intro conjI impI)
  show "store_counters_ok (run bt (NewPeerStorage cfg) xs)"
    by (rule run_counters) (rule NewPeerStorage_ok)
  show "store_counters_ok (step bt ps x)" if "store_counters_ok ps"
    using that by (rule step_counters)
  show "store_counters_ok (run bt ps xs)" if "store_counters_ok ps"
    using that by (rule run_counters)
next
  assume a: "counters_ok shard \<and> totalSeeders shard < 2 ^ 64 \<and> totalLeechers shard < 2 ^ 64"
  show "uint (numSeeders shard) = totalSeeders shard"
    using a totals_nonneg(1)[of shard]
    by (simp add: counters_ok_def uint_word_of_int take_bit_int_eq_self)
  show "uint (numLeechers shard) = totalLeechers shard"
    using a totals_nonneg(2)[of shard]
    by (simp add: counters_ok_def uint_word_of_int take_bit_int_eq_self)
qed

text \<open>Four operations on a new store; the IPv4 shard then counts one seeder.\<close>

theorem counters_preserved_witness:
  "store_counters_ok (run demo_bt (NewPeerStorage \<lparr>ShardCount = 1\<rparr>) [])
   \<and> store_counters_ok
        (step demo_bt
           (run demo_bt (NewPeerStorage \<lparr>ShardCount = 1\<rparr>) [])
           (OpPutLeecher demo_ih (demo_peer 1) 5))
   \<and> store_counters_ok
        (run demo_bt (NewPeerStorage \<lparr>ShardCount = 1\<rparr>)
           [OpPutLeecher demo_ih (demo_peer 1) 5, OpPutSeeder demo_ih (demo_peer 2) 6,
            OpGraduateLeecher demo_ih (demo_peer 1) 7, OpGC sorted_list_of_fset 6])
   \<and> map numSeeders (shards
        (run demo_bt (NewPeerStorage \<lparr>ShardCount = 1\<rparr>)
           [OpPutLeecher demo_ih (demo_peer 1) 5, OpPutSeeder demo_ih (demo_peer 2) 6,
            OpGraduateLeecher demo_ih (demo_peer 1) 7, OpGC sorted_list_of_fset 6])) = [1, 0]"
proof -
  have "map numSeeders (shards
        (run demo_bt (NewPeerStorage \<lparr>ShardCount = 1\<rparr>)
           [OpPutLeecher demo_ih (demo_peer 1) 5, OpPutSeeder demo_ih (demo_peer 2) 6,
            OpGraduateLeecher demo_ih (demo_peer 1) 7, OpGC sorted_list_of_fset 6])) = [1, 0]"
    by code_simp
  then show ?thesis
    using counters_preserved[of demo_bt "\<lparr>ShardCount = 1\<rparr>" "[]"
        "run demo_bt (NewPeerStorage \<lparr>ShardCount = 1\<rparr>) []"
        "OpPutLeecher demo_ih (demo_peer 1) 5"]
      counters_preserved[of demo_bt "\<lparr>ShardCount = 1\<rparr>"
        "[OpPutLeecher demo_ih (demo_peer 1) 5, OpPutSeeder demo_ih (demo_peer 2) 6,
          OpGraduateLeecher demo_ih (demo_peer 1) 7, OpGC sorted_list_of_fset 6]"]
    by blast
qed

text \<open>
  Claim C1, as amended. The key sets of the seeders and leechers of every swarm are
  disjoint in a new store, and every operation keeps them disjoint provided
  \<open>PutSeeder\<close> is not applied to a peer that is then a leecher of the swarm and
  \<open>PutLeecher\<close> is not applied to a peer that is then a seeder of it. So they are
  disjoint after every sequence of \<open>PutSeeder\<close>, \<open>PutLeecher\<close>, \<open>DeleteSeeder\<close>,
  \<open>DeleteLeecher\<close>, \<open>GraduateLeecher\<close> and \<open>gc\<close> from an empty store in which the puts
  meet that condition.
\<close>

theorem disjoint_when_one_sided:
  "store_disjoint (NewPeerStorage cfg)
   \<and> (store_disjoint ps \<and> \<not> onOtherSide bt ps x \<longrightarrow> store_disjoint (step bt ps x))
   \<and> (one_sided bt (NewPeerStorage cfg) xs \<longrightarrow> store_disjoint (run bt (NewPeerStorage cfg) xs))"
proof (intro conjI impI)
  show new: "store_disjoint (NewPeerStorage cfg)"
    by (rule NewPeerStorage_ok)
  show "store_disjoint (step bt ps x)" if "store_disjoint ps \<and> \<not> onOtherSide bt ps x"
    using that by (simp add: step_disjoint)
  show "store_disjoint (run bt (NewPeerStorage cfg) xs)"
    if "one_sided bt (NewPeerStorage cfg) xs"
    using new that by (rule run_disjoint)
qed

text \<open>A leecher graduates, a second peer seeds, the first is deleted, and a sweep runs.\<close>

theorem disjoint_when_one_sided_witness:
  "one_sided demo_bt (NewPeerStorage \<lparr>ShardCount = 1\<rparr>)
     [OpPutLeecher demo_ih (demo_peer 1) 5, OpGraduateLeecher demo_ih (demo_peer 1) 6,
      OpPutSeeder demo_ih (demo_peer 2) 7, OpDeleteSeeder demo_ih (demo_peer 1), OpGC sorted_list_of_fset 6]
   \<and> store_disjoint
        (run demo_bt (NewPeerStorage \<lparr>ShardCount = 1\<rparr>)
           [OpPutLeecher demo_ih (demo_peer 1) 5, OpGraduateLeecher demo_ih (demo_peer 1) 6,
            OpPutSeeder demo_ih (demo_peer 2) 7, OpDeleteSeeder demo_ih (demo_peer 1), OpGC sorted_list_of_fset 6])"
proof -
  have h: "one_sided demo_bt (NewPeerStorage \<lparr>ShardCount = 1\<rparr>)
     [OpPutLeecher demo_ih (demo_peer 1) 5, OpGraduateLeecher demo_ih (demo_peer 1) 6,
      OpPutSeeder demo_ih (demo_peer 2) 7, OpDeleteSeeder demo_ih (demo_peer 1), OpGC sorted_list_of_fset 6]"
    by code_simp
  show ?thesis
    using h disjoint_when_one_sided[of "\<lparr>ShardCount = 1\<rparr>" "NewPeerStorage \<lparr>ShardCount = 1\<rparr>"
        demo_bt "OpGC sorted_list_of_fset 0"]
    by blast
qed

text \<open>
  \<open>PutLeecher(H, P)\<close> followed by \<open>PutSeeder(H, P)\<close> on an empty store: \<open>PutSeeder\<close> does
  not look at the leechers, and the peer is then on both sides of the swarm.
\<close>

theorem leecher_then_seeder_on_both_sides:
  "\<not> store_disjoint
       (run demo_bt (NewPeerStorage \<lparr>ShardCount = 1\<rparr>)
          [OpPutLeecher demo_ih (demo_peer 1) 5, OpPutSeeder demo_ih (demo_peer 1) 6])"
  by code_simp

text \<open>
  Claim C6. After every sequence of operations from a new store, every swarm present in
  the store has \<open>len(seeders) + len(leechers) > 0\<close>; and every operation keeps this,
  so \<open>DeleteSeeder\<close>, \<open>DeleteLeecher\<close> and \<open>gc\<close>, which can empty a swarm, remove the
  swarm they have emptied.
\<close>

theorem no_empty_swarm:
  "store_nonempty (run bt (NewPeerStorage cfg) xs)
   \<and> (store_nonempty ps \<longrightarrow> store_nonempty (step bt ps x))"
proof (intro conjI impI)
  show "store_nonempty (run bt (NewPeerStorage cfg) xs)"
    by (rule run_nonempty) (rule NewPeerStorage_ok)
  show "store_nonempty (step bt ps x)" if "store_nonempty ps"
    using that by (rule step_nonempty)
qed

text \<open>A seeder is put and deleted: no swarm is left in either shard.\<close>

theorem no_empty_swarm_witness:
  "store_nonempty (step demo_bt (NewPeerStorage \<lparr>ShardCount = 1\<rparr>)
        (OpPutSeeder demo_ih (demo_peer 1) 5))
   \<and> store_nonempty
        (step demo_bt
           (step demo_bt (NewPeerStorage \<lparr>ShardCount = 1\<rparr>)
              (OpPutSeeder demo_ih (demo_peer 1) 5))
           (OpDeleteSeeder demo_ih (demo_peer 1)))
   \<and> map (\<lambda>shard. fmdom (swarms shard))
        (shards (step demo_bt
           (step demo_bt (NewPeerStorage \<lparr>ShardCount = 1\<rparr>)
              (OpPutSeeder demo_ih (demo_peer 1) 5))
           (OpDeleteSeeder demo_ih (demo_peer 1)))) = [{||}, {||}]"
proof -
  have a: "store_nonempty (step demo_bt (NewPeerStorage \<lparr>ShardCount = 1\<rparr>)
        (OpPutSeeder demo_ih (demo_peer 1) 5))"
    using no_empty_swarm[of demo_bt "\<lparr>ShardCount = 1\<rparr>"
        "[OpPutSeeder demo_ih (demo_peer 1) 5]"] by simp
  have b: "map (\<lambda>shard. fmdom (swarms shard))
        (shards (step demo_bt
           (step demo_bt (NewPeerStorage \<lparr>ShardCount = 1\<rparr>)
              (OpPutSeeder demo_ih (demo_peer 1) 5))
           (OpDeleteSeeder demo_ih (demo_peer 1)))) = [{||}, {||}]"
    by code_simp
  show ?thesis
    using a b no_empty_swarm[of demo_bt "\<lparr>ShardCount = 1\<rparr>" "[]"
        "step demo_bt (NewPeerStorage \<lparr>ShardCount = 1\<rparr>)
              (OpPutSeeder demo_ih (demo_peer 1) 5)" "OpDeleteSeeder demo_ih (demo_peer 1)"]
    by blast
qed

lemma GraduateLeecher_succeeds:
  "(\<exists>ps'. GraduateLeecher bt clock ps ih p = Inr ps') = (\<exists>i. selectShard ps ih (Addr p) = Inr i)"
  by (auto simp: GraduateLeecher_def onShard_def split: sum.splits)

lemma GraduateLeecher_total:
  assumes "ShardCount (Config_Validate cfg) < 2 ^ 31" and "4 \<le> length ih"
  shows "\<exists>ps'. GraduateLeecher bt clock (run bt (NewPeerStorage cfg) xs) ih p = Inr ps'"
  using reachable_selectShard[OF assms] by (simp add: GraduateLeecher_succeeds)



section \<open>Selecting peers for an announce\<close>

lemma appendPeers_take:
  "appendPeers bt ks n peers =
     (peers @ map (NewPeer bt) (take (unat n) ks), n - word_of_nat (min (unat n) (length ks)))"
proof (induction ks arbitrary: n peers)
  case Nil
  then show ?case by simp
next
  case (Cons pk rest)
  show ?case
  proof (cases "n = 0")
    case True
    then show ?thesis by simp
  next
    case False
    then have u: "unat (n - 1) = unat n - 1" and pos: "0 < unat n"
      by (simp_all add: unat_minus_one unat_gt_0)
    have t: "take (unat n) (pk # rest) = pk # take (unat (n - 1)) rest"
      using pos by (simp add: take_Cons' u)
    have m: "min (unat n) (length (pk # rest)) = Suc (min (unat (n - 1)) (length rest))"
      using pos by (auto simp: u min_def)
    show ?thesis
      using False Cons.IH[of "n - 1" "peers @ [NewPeer bt pk]"] unfolding t m by simp
  qed
qed

lemma appendOthers_filter:
  "appendOthers bt a ks n peers = appendPeers bt (filter (\<lambda>pk. pk \<noteq> a) ks) n peers"
  by (induction ks arbitrary: n peers) simp_all

lemma enumerates_length: "enumerates it \<Longrightarrow> length (it S) = fcard S"
  by (metis enumerates_def distinct_card fcard.rep_eq fset_of_list.rep_eq)

lemma enumerates_set: "enumerates it \<Longrightarrow> set (it S) = fset S"
  by (metis enumerates_def fset_of_list.rep_eq)

lemma sint_nonneg_uint:
  fixes n :: "64 word"
  assumes "0 \<le> sint n"
  shows "uint n = sint n"
proof -
  have "sint n < 2 ^ 63" using sint_lt[of n] by simp
  then have "take_bit 64 (sint n) = sint n"
    using assms by (simp add: take_bit_int_eq_self)
  then show ?thesis using uint_sint[of n] by simp
qed

lemma uint_small_sint:
  fixes n :: "64 word"
  assumes "uint n < 2 ^ 63"
  shows "sint n = uint n"
proof -
  have "- (2 ^ 63) \<le> (0 :: int)"
    by simp
  then have "- (2 ^ 63) \<le> uint n"
    using uint_ge_0[of n] by (rule order_trans)
  then have "signed_take_bit 63 (uint n) = uint n"
    using assms by (simp add: signed_take_bit_int_eq_self)
  then show ?thesis using sint_uint[of n] by simp
qed

text \<open>
  A count that is not negative, less the number of peers taken: it is positive exactly
  when there were fewer peers than the count, and it is then the remainder.
\<close>

lemma numWant_remainder:
  fixes n :: "64 word"
  assumes "0 \<le> sint n"
  shows "unat n = nat (sint n)"
    and "0 <s n - word_of_nat (min (unat n) k) \<longleftrightarrow> k < nat (sint n)"
    and "unat (n - word_of_nat (min (unat n) k)) = nat (sint n) - k"
proof -
  show u: "unat n = nat (sint n)"
    using sint_nonneg_uint[OF assms] by (simp add: unat_eq_nat_uint)
  define m where "m = min (unat n) k"
  have small: "unat n < 2 ^ 63"
    using sint_lt[of n] assms unfolding u by simp
  have mle: "m \<le> unat n" by (simp add: m_def)
  have um: "unat (word_of_nat m :: 64 word) = m"
    using mle small by (simp add: unat_of_nat take_bit_nat_eq_self)
  have "(word_of_nat m :: 64 word) \<le> n"
    using mle um by (simp add: word_le_nat_alt)
  then have d: "unat (n - word_of_nat m) = unat n - m"
    using um by (simp add: unat_sub)
  then have "uint (n - word_of_nat m) < 2 ^ 63"
    using small by (simp add: uint_nat)
  then have s: "sint (n - word_of_nat m) = int (unat n - m)"
    using d uint_small_sint[of "n - word_of_nat m"] by (simp add: uint_nat)
  show "0 <s n - word_of_nat (min (unat n) k) \<longleftrightarrow> k < nat (sint n)"
    unfolding word_sless_alt m_def[symmetric] s using u by (auto simp: m_def min_def)
  show "unat (n - word_of_nat (min (unat n) k)) = nat (sint n) - k"
    unfolding m_def[symmetric] d using u by (auto simp: m_def min_def)
qed

text \<open>
  Claim C3, as amended. When the swarm is absent \<open>AnnouncePeers\<close> returns
  \<open>ErrResourceDoesNotExist\<close>. When it is present and \<open>numWant \<ge> 0\<close>: for a seeder it
  returns the first \<open>numWant\<close> leechers in the order of the iteration (all of them when
  there are fewer); for a leecher it returns the first \<open>numWant\<close> seeders and, when there
  are fewer than \<open>numWant\<close> seeders, fills the remainder with leechers other than the
  announcer, which is identified by its compact peer key.
\<close>

theorem AnnouncePeers_selection:
  assumes "enumerates it" and "selectShard ps ih (Addr peer) = Inr i"
  shows "(ih |\<notin>| fmdom (swarms (shards ps ! i)) \<longrightarrow>
            AnnouncePeers bt it ps ih seeder numWant peer = Inl ErrResourceDoesNotExist)
         \<and> (ih |\<in>| fmdom (swarms (shards ps ! i)) \<and> 0 \<le> sint numWant \<longrightarrow>
            AnnouncePeers bt it ps ih seeder numWant peer =
              Inr (map (NewPeer bt)
                (let sw = swarm_at (shards ps ! i) ih;
                     fromSeeders = it (fmdom (seeders sw));
                     fromLeechers = it (fmdom (leechers sw));
                     others = filter (\<lambda>pk. pk \<noteq> RawString bt peer) fromLeechers
                 in if seeder then take (nat (sint numWant)) fromLeechers
                    else take (nat (sint numWant)) fromSeeders
                         @ take (nat (sint numWant) - fcard (fmdom (seeders sw))) others)))"
proof (intro conjI impI)
  assume "ih |\<notin>| fmdom (swarms (shards ps ! i))"
  then show "AnnouncePeers bt it ps ih seeder numWant peer = Inl ErrResourceDoesNotExist"
    using assms(2) by (simp add: AnnouncePeers_def)
next
  assume a: "ih |\<in>| fmdom (swarms (shards ps ! i)) \<and> 0 \<le> sint numWant"
  then have present: "ih |\<in>| fmdom (swarms (shards ps ! i))" and nonneg: "0 \<le> sint numWant"
    by simp_all
  define sw where "sw = swarm_at (shards ps ! i) ih"
  define S where "S = it (fmdom (seeders sw))"
  define L where "L = it (fmdom (leechers sw))"
  define others where "others = filter (\<lambda>pk. pk \<noteq> RawString bt peer) L"
  define w where "w = nat (sint numWant)"
  have lenS: "length S = fcard (fmdom (seeders sw))"
    unfolding S_def by (rule enumerates_length[OF assms(1)])
  have unfold: "AnnouncePeers bt it ps ih seeder numWant peer =
      (if seeder then Inr (fst (appendPeers bt L numWant []))
       else let (peers, n) = appendPeers bt S numWant []
            in if 0 <s n then Inr (fst (appendPeers bt others n peers)) else Inr peers)"
    unfolding sw_def S_def L_def others_def
    using assms(2) present
    by (simp add: AnnouncePeers_def Let_def appendOthers_filter split_beta)
  note r = numWant_remainder(1)[OF nonneg, folded w_def]
    numWant_remainder(2)[OF nonneg, of "length S", folded w_def]
    numWant_remainder(3)[OF nonneg, of "length S", folded w_def]
  have result: "AnnouncePeers bt it ps ih seeder numWant peer =
      Inr (map (NewPeer bt)
        (if seeder then take w L else take w S @ take (w - length S) others))"
  proof (cases seeder)
    case True
    then show ?thesis
      unfolding unfold by (simp add: appendPeers_take r(1))
  next
    case False
    show ?thesis
    proof (cases "length S < w")
      case True
      then show ?thesis
        unfolding unfold using False r(2,3) by (simp add: appendPeers_take r(1))
    next
      case z: False
      then have "w - length S = 0" by simp
      then show ?thesis
        unfolding unfold using False z r(2) by (simp add: appendPeers_take r(1))
    qed
  qed
  show "AnnouncePeers bt it ps ih seeder numWant peer =
      Inr (map (NewPeer bt)
        (let sw = swarm_at (shards ps ! i) ih;
             fromSeeders = it (fmdom (seeders sw));
             fromLeechers = it (fmdom (leechers sw));
             others = filter (\<lambda>pk. pk \<noteq> RawString bt peer) fromLeechers
         in if seeder then take (nat (sint numWant)) fromLeechers
            else take (nat (sint numWant)) fromSeeders
                 @ take (nat (sint numWant) - fcard (fmdom (seeders sw))) others))"
    unfolding result Let_def
    using lenS by (simp add: sw_def S_def L_def others_def w_def)
qed

lemma enumerates_sorted: "enumerates sorted_list_of_fset"
proof -
  have "distinct (sorted_list_of_fset S)" for S :: "bytes fset"
    by (simp add: sorted_list_of_fset.rep_eq)
  then show ?thesis
    by (simp add: enumerates_def)
qed

text \<open>The scenario of the spec: two leechers and a seeder, announced to by one leecher.\<close>

theorem AnnouncePeers_selection_witness:
  "enumerates sorted_list_of_fset
   \<and> selectShard
        (run demo_bt (NewPeerStorage \<lparr>ShardCount = 1\<rparr>)
           [OpPutLeecher demo_ih (demo_peer 1) 5, OpPutLeecher demo_ih (demo_peer 2) 6,
            OpPutSeeder demo_ih (demo_peer 3) 7])
        demo_ih (Addr (demo_peer 1)) = Inr 0
   \<and> 0 \<le> sint (10 :: 64 word)
   \<and> AnnouncePeers demo_bt sorted_list_of_fset
        (run demo_bt (NewPeerStorage \<lparr>ShardCount = 1\<rparr>)
           [OpPutLeecher demo_ih (demo_peer 1) 5, OpPutLeecher demo_ih (demo_peer 2) 6,
            OpPutSeeder demo_ih (demo_peer 3) 7])
        demo_ih False 10 (demo_peer 1)
      = Inr [demo_peer 3, demo_peer 2]"
proof -
  let ?ps = "run demo_bt (NewPeerStorage \<lparr>ShardCount = 1\<rparr>)
           [OpPutLeecher demo_ih (demo_peer 1) 5, OpPutLeecher demo_ih (demo_peer 2) 6,
            OpPutSeeder demo_ih (demo_peer 3) 7]"
  have s: "selectShard ?ps demo_ih (Addr (demo_peer 1)) = Inr 0"
    by code_simp
  have p: "demo_ih |\<in>| fmdom (swarms (shards ?ps ! 0))"
    by code_simp
  have n: "0 \<le> sint (10 :: 64 word)"
    by simp
  have v: "map (NewPeer demo_bt)
            (let sw = swarm_at (shards ?ps ! 0) demo_ih;
                 fromSeeders = sorted_list_of_fset (fmdom (seeders sw));
                 fromLeechers = sorted_list_of_fset (fmdom (leechers sw));
                 others = filter (\<lambda>pk. pk \<noteq> RawString demo_bt (demo_peer 1)) fromLeechers
             in if False then take (nat (sint (10 :: 64 word))) fromLeechers
                else take (nat (sint (10 :: 64 word))) fromSeeders
                     @ take (nat (sint (10 :: 64 word)) - fcard (fmdom (seeders sw))) others)
           = [demo_peer 3, demo_peer 2]"
    by code_simp
  have "AnnouncePeers demo_bt sorted_list_of_fset ?ps demo_ih False 10 (demo_peer 1)
      = Inr [demo_peer 3, demo_peer 2]"
    using AnnouncePeers_selection[OF enumerates_sorted s, of demo_bt False 10] p n
    unfolding v by blast
  then show ?thesis
    using enumerates_sorted s n by blast
qed

text \<open>
  With \<open>numWant = -1\<close> a seeder receives both leechers of the swarm. With the least
  value of \<open>numWant\<close> a leecher receives the seeder, the decrement wraps around to the
  greatest value, and the leecher that is not the announcer is added: two peers.
\<close>

theorem AnnouncePeers_negative_numWant:
  "AnnouncePeers demo_bt sorted_list_of_fset
     (run demo_bt (NewPeerStorage \<lparr>ShardCount = 1\<rparr>)
        [OpPutLeecher demo_ih (demo_peer 1) 5, OpPutLeecher demo_ih (demo_peer 2) 6])
     demo_ih True (- 1) (demo_peer 3)
   = Inr [demo_peer 1, demo_peer 2]
   \<and> AnnouncePeers demo_bt sorted_list_of_fset
     (run demo_bt (NewPeerStorage \<lparr>ShardCount = 1\<rparr>)
        [OpPutLeecher demo_ih (demo_peer 1) 5, OpPutLeecher demo_ih (demo_peer 2) 6,
         OpPutSeeder demo_ih (demo_peer 3) 7])
     demo_ih False (- 9223372036854775808) (demo_peer 1)
   = Inr [demo_peer 3, demo_peer 2]"
  by code_simp

section \<open>A second sweep\<close>

lemma fmupd_same: "fmlookup m k = Some v \<Longrightarrow> fmupd k v m = m"
  by (rule fmap_ext) auto

lemma swarm_eta: "\<lparr>seeders = seeders sw, leechers = leechers sw\<rparr> = (sw :: swarm)"
  by simp

lemma gc_locked_fresh_fixed:
  assumes "shard_fresh c shard"
  shows "gc_locked it c ih shard = shard"
proof (cases "fmlookup (swarms shard) ih")
  case None
  then show ?thesis by (simp add: gc_locked_eq fmdom_notI)
next
  case (Some sw)
  then have at: "swarm_at shard ih = sw" by (rule swarm_at_Some)
  have f: "swarm_fresh c sw"
    using assms Some by (auto simp: shard_fresh_def fmpred_iff)
  have ne: "\<not> (seeders sw = fmempty \<and> leechers sw = fmempty)"
    using f by (simp add: swarm_fresh_def swarm_nonempty_iff)
  have el: "expire c ks (leechers sw, n) = (leechers sw, n)" for ks n
    using f by (simp add: swarm_fresh_def expire_fixed)
  have es: "expire c ks (seeders sw, n) = (seeders sw, n)" for ks n
    using f by (simp add: swarm_fresh_def expire_fixed)
  have dom: "ih |\<in>| fmdom (swarms shard)" using Some by (simp add: fmdomI)
  have same: "fmupd ih \<lparr>seeders = seeders sw, leechers = leechers sw\<rparr> (swarms shard) = swarms shard"
    unfolding swarm_eta by (rule fmupd_same[OF Some])
  show ?thesis
    using ne dom by (auto simp: gc_locked_eq at Let_def el es same)
qed

lemma fold_fixed: "(\<And>x. f x s = s) \<Longrightarrow> fold f xs s = s"
  by (induction xs) simp_all

lemma gc_shard_fresh_fixed: "shard_fresh c shard \<Longrightarrow> gc_shard it c shard = shard"
  unfolding gc_shard_def Let_def by (rule fold_fixed) (rule gc_locked_fresh_fixed)

text \<open>The swarm of one info-hash after the body of the sweep, and the others.\<close>

lemma gc_locked_other:
  "k \<noteq> ih \<Longrightarrow> fmlookup (swarms (gc_locked it c ih shard)) k = fmlookup (swarms shard) k"
  by (simp add: gc_locked_eq Let_def)

lemma gc_locked_self:
  assumes "enumerates it" and "fmlookup (swarms (gc_locked it c ih shard)) ih = Some sw"
  shows "swarm_fresh c sw"
proof (cases "ih |\<in>| fmdom (swarms shard)")
  case False
  then show ?thesis using assms(2) by (simp add: gc_locked_eq fmdom_notD)
next
  case True
  let ?old = "swarm_at shard ih"
  let ?l = "expire c (it (fmdom (leechers ?old))) (leechers ?old, numLeechers shard)"
  let ?s = "expire c (it (fmdom (seeders ?old))) (seeders ?old, numSeeders shard)"
  have sw: "sw = \<lparr>seeders = fst ?s, leechers = fst ?l\<rparr>"
    and ne: "\<not> (fst ?s = fmempty \<and> fst ?l = fmempty)"
    using assms(2) True by (auto simp: gc_locked_eq Let_def split: if_splits)
  have "all_after c (fst ?s)" and "all_after c (fst ?l)"
    using assms(1) by (auto intro!: expire_all_after simp: enumerates_def)
  then show ?thesis
    using ne unfolding sw by (simp add: swarm_fresh_def swarm_nonempty_iff)
qed

lemma fold_gc_locked_key:
  assumes "enumerates it"
    and "k \<in> set ks \<or> (\<forall>sw. fmlookup (swarms shard) k = Some sw \<longrightarrow> swarm_fresh c sw)"
    and "fmlookup (swarms (fold (gc_locked it c) ks shard)) k = Some sw"
  shows "swarm_fresh c sw"
  using assms(2,3)
proof (induction ks arbitrary: shard)
  case Nil
  then show ?case by simp
next
  case (Cons ih rest)
  have "k \<in> set rest \<or> (\<forall>sw. fmlookup (swarms (gc_locked it c ih shard)) k = Some sw \<longrightarrow> swarm_fresh c sw)"
  proof (cases "k \<in> set rest")
    case True
    then show ?thesis by simp
  next
    case False
    have "swarm_fresh c sw'" if "fmlookup (swarms (gc_locked it c ih shard)) k = Some sw'" for sw'
    proof (cases "k = ih")
      case True
      then show ?thesis using gc_locked_self[OF assms(1)] that by simp
    next
      case False
      then have "\<forall>sw. fmlookup (swarms shard) k = Some sw \<longrightarrow> swarm_fresh c sw"
        using Cons.prems(1) \<open>k \<notin> set rest\<close> by simp
      then show ?thesis using that False by (simp add: gc_locked_other)
    qed
    then show ?thesis by blast
  qed
  then show ?case
    using Cons.IH[of "gc_locked it c ih shard"] Cons.prems(2) by simp
qed

lemma gc_shard_fresh:
  assumes "enumerates it"
  shows "shard_fresh c (gc_shard it c shard)"
  unfolding shard_fresh_def fmpred_iff
proof (intro allI impI)
  fix k sw
  assume a: "fmlookup (swarms (gc_shard it c shard)) k = Some sw"
  have "k \<in> set (it (fmdom (swarms shard))) \<or>
        (\<forall>sw. fmlookup (swarms shard) k = Some sw \<longrightarrow> swarm_fresh c sw)"
  proof (cases "k |\<in>| fmdom (swarms shard)")
    case True
    then show ?thesis using enumerates_set[OF assms] by simp
  next
    case False
    then show ?thesis by (simp add: fmdom_notD)
  qed
  then show "swarm_fresh c sw"
    using a fold_gc_locked_key[OF assms] unfolding gc_shard_def Let_def by blast
qed

text \<open>
  Claim C7. For every store and every cutoff, and whatever the orders in which the two
  sweeps iterate over the maps:
  a second sweep with the same cutoff leaves the store as the first sweep left it. After
  a sweep of an open store every time that remains is after the cutoff and no swarm is
  empty: the sweep has removed every peer whose time is at or before the cutoff and
  deleted the swarms it has emptied (it decrements the counter of the shard for each
  peer removed, see C2).
\<close>

theorem gc_idempotent:
  assumes "enumerates it"
  shows "gc it' (gc it ps cutoff) cutoff = gc it ps cutoff
         \<and> (closed ps \<or> list_all (shard_fresh (word_of_int cutoff)) (shards (gc it ps cutoff)))"
proof (cases "closed ps")
  case True
  then show ?thesis by (simp add: gc_def)
next
  case False
  have "gc_shard it' c (gc_shard it c shard) = gc_shard it c shard" for c shard
    by (rule gc_shard_fresh_fixed[OF gc_shard_fresh[OF assms]])
  then have "gc it' (gc it ps cutoff) cutoff = gc it ps cutoff"
    using False by (simp add: gc_def Let_def)
  moreover have "list_all (shard_fresh (word_of_int cutoff)) (shards (gc it ps cutoff))"
    using False gc_shard_fresh[OF assms] by (simp add: gc_def Let_def list_all_iff)
  ultimately show ?thesis by simp
qed

text \<open>A sweep that removes one of two leechers, run twice.\<close>

theorem gc_idempotent_witness:
  "enumerates sorted_list_of_fset
   \<and> gc sorted_list_of_fset
        (gc sorted_list_of_fset
           (run demo_bt (NewPeerStorage \<lparr>ShardCount = 1\<rparr>)
              [OpPutLeecher demo_ih (demo_peer 1) 5, OpPutLeecher demo_ih (demo_peer 2) 9]) 7) 7
      = gc sorted_list_of_fset
           (run demo_bt (NewPeerStorage \<lparr>ShardCount = 1\<rparr>)
              [OpPutLeecher demo_ih (demo_peer 1) 5, OpPutLeecher demo_ih (demo_peer 2) 9]) 7
   \<and> map numLeechers (shards (gc sorted_list_of_fset
           (run demo_bt (NewPeerStorage \<lparr>ShardCount = 1\<rparr>)
              [OpPutLeecher demo_ih (demo_peer 1) 5, OpPutLeecher demo_ih (demo_peer 2) 9]) 7)) = [1, 0]"
proof -
  have "map numLeechers (shards (gc sorted_list_of_fset
           (run demo_bt (NewPeerStorage \<lparr>ShardCount = 1\<rparr>)
              [OpPutLeecher demo_ih (demo_peer 1) 5, OpPutLeecher demo_ih (demo_peer 2) 9]) 7)) = [1, 0]"
    by code_simp
  then show ?thesis
    using enumerates_sorted gc_idempotent[OF enumerates_sorted] by simp
qed

end
